theory Spec2Isabelle
  imports Main "HOL-Library.Word"
begin

section \<open>ScaleFS: a shallow embedding of the filesystem core\<close>

text \<open>
  The development follows \<^verbatim>\<open>kernel/fs.cc\<close> and \<^verbatim>\<open>kernel/scalefs.cc\<close>.
  Machine integers are words; every \<^verbatim>\<open>panic\<close>, failed \<^verbatim>\<open>assert\<close> and C++ exception
  is a value of type \<open>error\<close>, returned on the left of a sum.
\<close>

type_synonym u8 = "8 word"
type_synonym u32 = "32 word"
type_synonym u64 = "64 word"

datatype error =
    Panic string
  | AssertFailed string
  | OutOfRange
  | OutOfBlocks
  | Undefined string

subsection \<open>Superblock\<close>

text \<open>
  \<^verbatim>\<open>struct superblock\<close> (fs.h is not part of the sources; the fields are the ones the
  code reads and writes). \<open>reclaim_inodes\<close> is the fixed array of the struct.
\<close>

record superblock =
  size :: u32
  ninodes :: u32
  nblocks :: u32
  num_reclaim_inodes :: u32
  reclaim_inodes :: "u32 list"

subsection \<open>Free-block allocator (scalefs.cc)\<close>

text \<open>
  A \<^verbatim>\<open>free_bit\<close> object carries its block number and the flag. The vector
  \<^verbatim>\<open>free_bit_vector\<close> owns the objects; the intrusive list \<^verbatim>\<open>free_bit_freelist\<close>
  links some of the same objects. An object is identified by its position in the vector,
  so the freelist is a list of positions.
\<close>

record free_bit =
  bit_bno :: u32  \<comment> \<open>the field \<^verbatim>\<open>bno_\<close> of the source\<close>
  is_free :: bool

record allocator =
  free_bit_vector :: "free_bit list"
  free_bit_freelist :: "nat list"

text \<open>
  \<^verbatim>\<open>alloc_block\<close>: pop the head of the freelist, assert that it is free, clear the
  flag and return its number; with an empty list return \<^verbatim>\<open>sb.size\<close>.
\<close>

definition alloc_block :: "superblock \<Rightarrow> allocator \<Rightarrow> error + (u32 \<times> allocator)" where
  "alloc_block sb a =
     (case free_bit_freelist a of
        it # rest \<Rightarrow>
          if \<not> is_free (free_bit_vector a ! it) then Inl (AssertFailed ''it->is_free == true'')
          else
            Inr (bit_bno (free_bit_vector a ! it),
                 a\<lparr>free_bit_vector :=
                      (free_bit_vector a)[it := (free_bit_vector a ! it)\<lparr>is_free := False\<rparr>],
                   free_bit_freelist := rest\<rparr>)
      | [] \<Rightarrow> Inr (size sb, a))"

text \<open>
  \<^verbatim>\<open>free_block\<close>: \<^verbatim>\<open>free_bit_vector.at(bno)\<close> throws when \<open>bno\<close> is out of range; a
  bit that is already free panics; otherwise the flag is set and the bit is pushed on the
  front of the freelist.
\<close>

definition free_block :: "u32 \<Rightarrow> allocator \<Rightarrow> error + allocator" where
  "free_block bno a =
     (if unat bno \<ge> length (free_bit_vector a) then Inl OutOfRange
      else if is_free (free_bit_vector a ! unat bno) then Inl (Panic ''freeing free block'')
      else Inr (a\<lparr>free_bit_vector :=
                     (free_bit_vector a)[unat bno := (free_bit_vector a ! unat bno)\<lparr>is_free := True\<rparr>],
                  free_bit_freelist := unat bno # free_bit_freelist a\<rparr>))"

text \<open>
  The representation invariant of the two parallel structures, as
  \<^verbatim>\<open>initialize_free_bit_vector\<close> establishes it: the object at position \<open>i\<close> has block
  number \<open>i\<close>, and the freelist holds exactly the positions whose flag is set, each once.
\<close>

definition free_positions :: "allocator \<Rightarrow> nat list" where
  "free_positions a = filter (\<lambda>i. is_free (free_bit_vector a ! i)) [0..<length (free_bit_vector a)]"

definition alloc_inv :: "allocator \<Rightarrow> bool" where
  "alloc_inv a \<longleftrightarrow>
     distinct (free_bit_freelist a) \<and>
     set (free_bit_freelist a) = set (free_positions a) \<and>
     map (\<lambda>b. unat (bit_bno b)) (free_bit_vector a) = [0..<length (free_bit_vector a)]"

text \<open>A small allocator state and superblock, used to exercise the theorems.\<close>

definition ex_alloc :: allocator where
  "ex_alloc = \<lparr>free_bit_vector =
                  [\<lparr>bit_bno = 0, is_free = False\<rparr>, \<lparr>bit_bno = 1, is_free = True\<rparr>,
                   \<lparr>bit_bno = 2, is_free = True\<rparr>],
                free_bit_freelist = [1, 2]\<rparr>"

definition ex_sb :: superblock where
  "ex_sb = \<lparr>size = 3, ninodes = 8, nblocks = 3, num_reclaim_inodes = 0, reclaim_inodes = [0, 0]\<rparr>"

subsection \<open>The in-memory superblock and deferred inode reclaim\<close>

text \<open>
  \<^verbatim>\<open>get_superblock\<close> (fs.cc) fills the caller's struct from the static \<^verbatim>\<open>sb_root\<close>,
  which \<^verbatim>\<open>initinode\<close> read from block 1 at boot. With \<^verbatim>\<open>get_reclaim_inodes\<close> it copies
  the count and the first \<open>num_reclaim_inodes\<close> entries; the other entries of the caller's
  array keep what the caller's memory held. Copying past the end of the array is undefined.
\<close>

definition get_superblock :: "superblock \<Rightarrow> superblock \<Rightarrow> bool \<Rightarrow> error + superblock" where
  "get_superblock sb sb_root get_reclaim_inodes =
     (let sb1 = sb\<lparr>size := size sb_root, ninodes := ninodes sb_root, nblocks := nblocks sb_root\<rparr>
      in if get_reclaim_inodes then
           (let k = unat (num_reclaim_inodes sb_root)
            in if k > length (reclaim_inodes sb_root) \<or> k > length (reclaim_inodes sb)
               then Inl (Undefined ''reclaim_inodes index out of bounds'')
               else Inr (sb1\<lparr>num_reclaim_inodes := num_reclaim_inodes sb_root,
                              reclaim_inodes := take k (reclaim_inodes sb_root) @ drop k (reclaim_inodes sb)\<rparr>))
         else Inr sb1)"

text \<open>
  The state \<^verbatim>\<open>defer_inode_reclaim\<close> works on: the static \<^verbatim>\<open>sb_root\<close>, the contents of
  block 1 (the buffer is written back synchronously, so cache and disk agree), and the
  console.
\<close>

record sb_state =
  sb_root :: superblock
  block1 :: superblock
  console :: "string list"

text \<open>
  \<^verbatim>\<open>defer_inode_reclaim(inum)\<close> (scalefs.cc). \<open>stack\<close> is the uninitialised local
  \<^verbatim>\<open>superblock sb\<close>; \<open>NRECLAIM_INODES\<close> is the length of the array (fs.h is not part of
  the sources, the constant is a parameter).
\<close>

definition defer_inode_reclaim :: "nat \<Rightarrow> superblock \<Rightarrow> u32 \<Rightarrow> sb_state \<Rightarrow> error + sb_state" where
  "defer_inode_reclaim NRECLAIM_INODES stack inum s =
     (case get_superblock stack (sb_root s) True of
        Inl e \<Rightarrow> Inl e
      | Inr sb \<Rightarrow>
          if unat (num_reclaim_inodes sb) \<ge> NRECLAIM_INODES then
            Inr (s\<lparr>console := console s @ [''WARNING: No space left to mark inodes for deferred deletion!'']\<rparr>)
          else
            Inr (s\<lparr>block1 := sb\<lparr>reclaim_inodes := (reclaim_inodes sb)[unat (num_reclaim_inodes sb) := inum],
                                 num_reclaim_inodes := num_reclaim_inodes sb + 1\<rparr>\<rparr>))"

text \<open>Two requests in a row, on a freshly booted system with an empty reclaim list.\<close>

definition ex_sb_state :: sb_state where
  "ex_sb_state = \<lparr>sb_root = ex_sb, block1 = ex_sb, console = []\<rparr>"

definition defer_twice :: "error + sb_state" where
  "defer_twice =
     (case defer_inode_reclaim 2 ex_sb 5 ex_sb_state of
        Inl e \<Rightarrow> Inl e
      | Inr s1 \<Rightarrow> defer_inode_reclaim 2 ex_sb 7 s1)"

definition defer_thrice :: "error + sb_state" where
  "defer_thrice =
     (case defer_twice of
        Inl e \<Rightarrow> Inl e
      | Inr s2 \<Rightarrow> defer_inode_reclaim 2 ex_sb 9 s2)"

subsection \<open>Journal records and recovery (scalefs.cc)\<close>

text \<open>
  A journal record is a header followed by one block of payload. The header type
  \<^verbatim>\<open>journal_block_header\<close> and the constants \<^verbatim>\<open>jrnl_start\<close>, \<^verbatim>\<open>jrnl_data\<close>,
  \<^verbatim>\<open>jrnl_commit\<close> are declared in scalefs.hh, which is not part of the sources: the
  header has the three fields the code reads, and the three constants are parameters
  (distinct, as the labels of one \<^verbatim>\<open>switch\<close> are). Padding bytes are not modelled.
\<close>

type_synonym payload = "u8 list"

record journal_block_header =
  timestamp :: u64
  blocknum :: u32
  block_type :: u8

record jrnl_types =
  jrnl_start :: u8
  jrnl_data :: u8
  jrnl_commit :: u8

definition jrnl_types_ok :: "jrnl_types \<Rightarrow> bool" where
  "jrnl_types_ok jt \<longleftrightarrow>
     jrnl_start jt \<noteq> jrnl_data jt \<and> jrnl_start jt \<noteq> jrnl_commit jt \<and> jrnl_data jt \<noteq> jrnl_commit jt"













text \<open>
  A journal with one committed transaction (timestamp 7, block 5) followed by a data
  record of another transaction (timestamp 9).
\<close>

definition ex_jt :: jrnl_types where
  "ex_jt = \<lparr>jrnl_start = 1, jrnl_data = 2, jrnl_commit = 3\<rparr>"




subsection \<open>Transactions and the journal writer (scalefs.cc)\<close>

text \<open>
  \<^verbatim>\<open>class transaction\<close> is declared in scalefs.hh, which is not part of the sources; the
  fields are the ones fs.cc and scalefs.cc use: the timestamp (\<^verbatim>\<open>timestamp_\<close>), the
  disk blocks and the lists of allocated and freed block numbers. Of its methods,
  \<^verbatim>\<open>add_blocks\<close> appends the given blocks, \<^verbatim>\<open>add_allocated_block\<close> and
  \<^verbatim>\<open>add_free_block\<close> append a block number to their list.
\<close>

record transaction =
  trans_timestamp :: u64
  blocks :: "(u32 \<times> payload) list"
  allocated_block_list :: "u32 list"
  free_block_list :: "u32 list"

text \<open>
  Constants that come from headers outside the sources (fs.h, scalefs.hh) are parameters:
  \<^verbatim>\<open>sizeof(journal_block_header)\<close>, \<^verbatim>\<open>BSIZE\<close>, \<^verbatim>\<open>PHYS_JOURNAL_SIZE\<close>, \<^verbatim>\<open>NDIRECT\<close>,
  \<^verbatim>\<open>NINDIRECT\<close>, \<^verbatim>\<open>MAXFILE\<close> and the inode type \<^verbatim>\<open>T_DEV\<close>.
\<close>

record fs_params =
  hdr_size :: nat
  BSIZE :: nat
  PHYS_JOURNAL_SIZE :: nat
  NDIRECT :: nat
  NINDIRECT :: nat
  MAXFILE :: nat
  T_DEV :: "16 word"

text \<open>
  \<^verbatim>\<open>fits_in_journal(num_trans_blocks)\<close>: \<^verbatim>\<open>trans_size\<close> is a \<^verbatim>\<open>u64\<close> computed in
  \<^verbatim>\<open>size_t\<close> arithmetic, the offset is a \<^verbatim>\<open>u32\<close> widened for the comparison.
\<close>

definition fits_in_journal :: "fs_params \<Rightarrow> u32 \<Rightarrow> u64 \<Rightarrow> bool" where
  "fits_in_journal P offset num_trans_blocks =
     (let trans_size = (word_of_nat (hdr_size P) + word_of_nat (BSIZE P)) * (1 + num_trans_blocks) :: u64
      in if (ucast offset :: u64) + trans_size > word_of_nat (PHYS_JOURNAL_SIZE P) then False else True)"

text \<open>
  What \<^verbatim>\<open>flush_journal_locked\<close> does to collaborators that are outside the sources is
  recorded as a trace of calls, in order.
\<close>

datatype flush_event =
    PrepareForCommit u64
  | FinishAfterCommit u64
  | WriteToDisk "(u32 \<times> journal_block_header \<times> payload) list"
  | PostProcess transaction
  | ApplyTransOnDisk "(u32 \<times> payload) list"
  | Ideflush
  | ResetJournal

text \<open>
  The journal (\<^verbatim>\<open>fs_journal\<close>: offset and transaction log), the locals of
  \<^verbatim>\<open>flush_journal_locked\<close>, the buffer cache \<open>bufcache\<close> (of any type: only the bitmap
  update reads and writes it) and the trace. \<open>cur_timestamp\<close> is the local
  \<^verbatim>\<open>timestamp\<close>; \<open>prune_trans\<close> and \<open>trans\<close> are the blocks of the transactions of
  these names. \<open>trans\<close> holds the journal-file writes
  (offset, header, payload) that \<^verbatim>\<open>writei\<close> has added to the container transaction and
  that \<^verbatim>\<open>write_to_disk\<close> has not yet written.
\<close>

record 'bc flush_state =
  current_offset :: u32
  transaction_log :: "transaction list"
  trans :: "(u32 \<times> journal_block_header \<times> payload) list"
  prune_trans :: "(u32 \<times> payload) list"
  processed_trans_vec :: "transaction list"
  cur_timestamp :: u64
  prolog_timestamp :: u64
  bufcache :: 'bc
  events :: "flush_event list"

text \<open>
  \<^verbatim>\<open>write_journal_hdrblock\<close>: header and payload are written at the current offset, which
  then moves by \<^verbatim>\<open>hdr_size + BSIZE\<close>, in \<^verbatim>\<open>u32\<close>. The journal file is allocated in full
  when the file system is made; the two \<^verbatim>\<open>writei\<close> calls are taken to succeed.
\<close>

definition write_journal_hdrblock ::
  "fs_params \<Rightarrow> journal_block_header \<Rightarrow> payload \<Rightarrow> 'bc flush_state \<Rightarrow> 'bc flush_state" where
  "write_journal_hdrblock P header datablock s =
     s\<lparr>trans := trans s @ [(current_offset s, header, datablock)],
       current_offset := current_offset s + word_of_nat (hdr_size P) + word_of_nat (BSIZE P)\<rparr>"

definition write_journal_header ::
  "fs_params \<Rightarrow> jrnl_types \<Rightarrow> u8 \<Rightarrow> u64 \<Rightarrow> 'bc flush_state \<Rightarrow> 'bc flush_state" where
  "write_journal_header P jt hdr_type ts s =
     (if hdr_type = jrnl_start jt then
        write_journal_hdrblock P \<lparr>timestamp = ts, blocknum = 0, block_type = jrnl_start jt\<rparr>
          (replicate (BSIZE P) 0) s
      else if hdr_type = jrnl_commit jt then
        write_journal_hdrblock P \<lparr>timestamp = ts, blocknum = 0, block_type = jrnl_commit jt\<rparr>
          (replicate (BSIZE P) 0) s
      else s)"

definition write_journal_trans_prolog ::
  "fs_params \<Rightarrow> jrnl_types \<Rightarrow> u64 \<Rightarrow> 'bc flush_state \<Rightarrow> 'bc flush_state" where
  "write_journal_trans_prolog P jt ts s = write_journal_header P jt (jrnl_start jt) ts s"

fun write_journal_transaction_blocks ::
  "fs_params \<Rightarrow> jrnl_types \<Rightarrow> (u32 \<times> payload) list \<Rightarrow> u64 \<Rightarrow> 'bc flush_state \<Rightarrow> 'bc flush_state" where
  "write_journal_transaction_blocks P jt [] ts s = s"
| "write_journal_transaction_blocks P jt ((bno, blockdata) # vec) ts s =
     write_journal_transaction_blocks P jt vec ts
       (write_journal_hdrblock P \<lparr>timestamp = ts, blocknum = bno, block_type = jrnl_data jt\<rparr> blockdata s)"

text \<open>
  \<^verbatim>\<open>write_journal_trans_epilog\<close>: the container transaction is written out, then the
  commit record is written through a fresh one.
\<close>

definition write_journal_trans_epilog ::
  "fs_params \<Rightarrow> jrnl_types \<Rightarrow> u64 \<Rightarrow> 'bc flush_state \<Rightarrow> 'bc flush_state" where
  "write_journal_trans_epilog P jt ts s =
     (let s1 = s\<lparr>events := events s @ [WriteToDisk (trans s)], trans := []\<rparr>;
          s2 = write_journal_header P jt (jrnl_commit jt) ts s1
      in s2\<lparr>events := events s2 @ [WriteToDisk (trans s2)], trans := []\<rparr>)"

text \<open>
  \<^verbatim>\<open>reset_journal\<close>, as the journal writer sees it: the zero header goes to disk through
  a transaction of its own and the offset returns to 0.
\<close>

definition reset_journal_offset :: "'bc flush_state \<Rightarrow> 'bc flush_state" where
  "reset_journal_offset s = s\<lparr>events := events s @ [ResetJournal], current_offset := 0\<rparr>"

text \<open>
  Modelled from the spec: \<^verbatim>\<open>transaction::deduplicate_blocks\<close> is declared in scalefs.hh,
  which is not part of the sources. Section 4.6: "within a batch, repeated writes to the
  same block number collapse to the latest content; exactly one \<^verbatim>\<open>jrnl_data\<close> record per
  block is emitted".
\<close>

fun deduplicate_blocks :: "(u32 \<times> payload) list \<Rightarrow> (u32 \<times> payload) list" where
  "deduplicate_blocks [] = []"
| "deduplicate_blocks ((bno, d) # bs) =
     (if bno \<in> fst ` set bs then deduplicate_blocks bs else (bno, d) # deduplicate_blocks bs)"

text \<open>
  \<^verbatim>\<open>pre_process_transaction\<close>: the on-disk bitmap is updated for the allocated and for
  the freed blocks, unless the list is empty. \<^verbatim>\<open>balloc_on_disk\<close> and \<^verbatim>\<open>bfree_on_disk\<close>
  call \<^verbatim>\<open>balloc_free_on_disk\<close> (fs.cc), which works on the bitmap blocks in the buffer
  cache through macros and buffer operations that are outside the sources; it enters as
  the parameter \<open>bitmap_update\<close>, which may panic and may add blocks to the transaction.
\<close>

definition pre_process_transaction ::
  "(bool \<Rightarrow> u32 list \<Rightarrow> 'bc \<Rightarrow> transaction \<Rightarrow> error + ('bc \<times> transaction)) \<Rightarrow>
   'bc \<Rightarrow> transaction \<Rightarrow> error + ('bc \<times> transaction)" where
  "pre_process_transaction bitmap_update bc tr =
     (case (if allocated_block_list tr \<noteq> [] then bitmap_update True (allocated_block_list tr) bc tr
            else Inr (bc, tr)) of
        Inl e \<Rightarrow> Inl e
      | Inr (bc1, tr1) \<Rightarrow>
          if free_block_list tr1 \<noteq> [] then bitmap_update False (free_block_list tr1) bc1 tr1
          else Inr (bc1, tr1))"

text \<open>
  The \<^verbatim>\<open>else\<close> branch of the loop body: commit the batch gathered so far, apply it,
  reset the journal and open a new batch with the current timestamp.
\<close>

fun post_process_events :: "transaction list \<Rightarrow> flush_event list" where
  "post_process_events [] = []"
| "post_process_events (t # ts) = PostProcess t # post_process_events ts"

definition commit_apply_reset ::
  "fs_params \<Rightarrow> jrnl_types \<Rightarrow> transaction \<Rightarrow> 'bc flush_state \<Rightarrow> 'bc flush_state" where
  "commit_apply_reset P jt t s =
     (let s1 = s\<lparr>events := events s @ [FinishAfterCommit (trans_timestamp t)]\<rparr>;
          pruned = deduplicate_blocks (prune_trans s1);
          s2 = write_journal_transaction_blocks P jt pruned (cur_timestamp s1) (s1\<lparr>prune_trans := pruned\<rparr>);
          s3 = write_journal_trans_epilog P jt (prolog_timestamp s2) s2;
          s4 = s3\<lparr>events := events s3 @ post_process_events (processed_trans_vec s3)
                                        @ [ApplyTransOnDisk (prune_trans s3), Ideflush],
                  processed_trans_vec := []\<rparr>;
          s5 = reset_journal_offset s4;
          s6 = s5\<lparr>prune_trans := [], trans := [], prolog_timestamp := cur_timestamp s5\<rparr>
      in write_journal_trans_prolog P jt (prolog_timestamp s6) s6)"

text \<open>
  The body of the loop from the label \<^verbatim>\<open>retry\<close> on. A sub-transaction that does not fit
  is retried after \<open>commit_apply_reset\<close>; nothing bounds the number of retries, so the
  function is partial: \<open>None\<close> is the loop that never ends.
\<close>

partial_function (option) flush_retry ::
  "fs_params \<Rightarrow> jrnl_types \<Rightarrow> transaction \<Rightarrow> 'bc flush_state \<Rightarrow> 'bc flush_state option" where
  "flush_retry P jt t s =
     (let s1 = s\<lparr>events := events s @ [PrepareForCommit (trans_timestamp t)]\<rparr>
      in if fits_in_journal P (current_offset s1) (word_of_nat (length (blocks t))) then
           Some (s1\<lparr>prune_trans := prune_trans s1 @ blocks t,
                    processed_trans_vec := processed_trans_vec s1 @ [t]\<rparr>)
         else flush_retry P jt t (commit_apply_reset P jt t s1))"

fun flush_loop ::
  "fs_params \<Rightarrow> jrnl_types \<Rightarrow>
   (bool \<Rightarrow> u32 list \<Rightarrow> 'bc \<Rightarrow> transaction \<Rightarrow> error + ('bc \<times> transaction)) \<Rightarrow>
   transaction list \<Rightarrow> 'bc flush_state \<Rightarrow> (error + 'bc flush_state) option" where
  "flush_loop P jt bitmap_update [] s = Some (Inr s)"
| "flush_loop P jt bitmap_update (it # rest) s =
     (case pre_process_transaction bitmap_update (bufcache s) it of
        Inl e \<Rightarrow> Some (Inl e)
      | Inr (bc, t) \<Rightarrow>
          (case flush_retry P jt t (s\<lparr>cur_timestamp := trans_timestamp it, bufcache := bc\<rparr>) of
             None \<Rightarrow> None
           | Some s' \<Rightarrow> flush_loop P jt bitmap_update rest s'))"

definition flush_journal_locked ::
  "fs_params \<Rightarrow> jrnl_types \<Rightarrow>
   (bool \<Rightarrow> u32 list \<Rightarrow> 'bc \<Rightarrow> transaction \<Rightarrow> error + ('bc \<times> transaction)) \<Rightarrow>
   'bc flush_state \<Rightarrow> (error + 'bc flush_state) option" where
  "flush_journal_locked P jt bitmap_update s =
     (case transaction_log s of
        [] \<Rightarrow> Some (Inr s)
      | first # _ \<Rightarrow>
          (let s0 = s\<lparr>cur_timestamp := 0, prolog_timestamp := trans_timestamp first,
                       trans := [], prune_trans := [], processed_trans_vec := []\<rparr>;
               s1 = write_journal_trans_prolog P jt (prolog_timestamp s0) s0
           in case flush_loop P jt bitmap_update (transaction_log s) s1 of
                None \<Rightarrow> None
              | Some (Inl e) \<Rightarrow> Some (Inl e)
              | Some (Inr s2) \<Rightarrow>
                  (let s3 = (if processed_trans_vec s2 \<noteq> [] then
                               write_journal_transaction_blocks P jt (deduplicate_blocks (prune_trans s2))
                                 (cur_timestamp s2) (s2\<lparr>prune_trans := deduplicate_blocks (prune_trans s2)\<rparr>)
                             else s2);
                       s4 = write_journal_trans_epilog P jt (prolog_timestamp s3) s3;
                       s5 = s4\<lparr>events := events s4 @ post_process_events (processed_trans_vec s4)
                                                     @ [ApplyTransOnDisk (prune_trans s4), Ideflush],
                               processed_trans_vec := []\<rparr>;
                       s6 = reset_journal_offset s5
                   in Some (Inr (s6\<lparr>prune_trans := [], transaction_log := []\<rparr>)))))"

text \<open>
  Reading the trace: a commit-apply-reset cycle taken inside the loop shows as a
  \<open>FinishAfterCommit\<close> call, which occurs nowhere else; commit records are counted among
  the journal writes that went to disk.
\<close>

fun is_retry_event :: "flush_event \<Rightarrow> bool" where
  "is_retry_event (FinishAfterCommit _) = True"
| "is_retry_event _ = False"

definition retry_cycles :: "flush_event list \<Rightarrow> nat" where
  "retry_cycles evs = length (filter is_retry_event evs)"

fun written_records :: "flush_event list \<Rightarrow> (u32 \<times> journal_block_header \<times> payload) list" where
  "written_records [] = []"
| "written_records (WriteToDisk recs # evs) = recs @ written_records evs"
| "written_records (_ # evs) = written_records evs"

definition commit_records :: "jrnl_types \<Rightarrow> flush_event list \<Rightarrow> (u32 \<times> journal_block_header \<times> payload) list" where
  "commit_records jt evs = filter (\<lambda>(off, hdr, d). block_type hdr = jrnl_commit jt) (written_records evs)"

text \<open>
  A batch in which every sub-transaction, once pre-processed, satisfies the space
  condition at the journal offset \<open>off\<close>; the bound may be met with equality.
\<close>

fun batch_fits ::
  "fs_params \<Rightarrow> (bool \<Rightarrow> u32 list \<Rightarrow> 'bc \<Rightarrow> transaction \<Rightarrow> error + ('bc \<times> transaction)) \<Rightarrow>
   'bc \<Rightarrow> u32 \<Rightarrow> transaction list \<Rightarrow> bool" where
  "batch_fits P bitmap_update bc off [] = True"
| "batch_fits P bitmap_update bc off (it # rest) =
     (case pre_process_transaction bitmap_update bc it of
        Inl e \<Rightarrow> False
      | Inr (bc', t) \<Rightarrow>
          unat off + (hdr_size P + BSIZE P) * (length (blocks t) + 1) \<le> PHYS_JOURNAL_SIZE P \<and>
          batch_fits P bitmap_update bc' off rest)"

text \<open>
  A journal of three records (32-byte headers, 4096-byte blocks) and a log with one
  sub-transaction of one block: the start record, the data record and the commit record
  fill the journal exactly.
\<close>

definition ex_jparams :: fs_params where
  "ex_jparams = \<lparr>hdr_size = 32, BSIZE = 4096, PHYS_JOURNAL_SIZE = 12384,
                  NDIRECT = 10, NINDIRECT = 1024, MAXFILE = 1049610, T_DEV = 3\<rparr>"

definition ex_trans :: transaction where
  "ex_trans = \<lparr>trans_timestamp = 7, blocks = [(5, [170])], allocated_block_list = [], free_block_list = []\<rparr>"

definition no_bitmap_update :: "bool \<Rightarrow> u32 list \<Rightarrow> unit \<Rightarrow> transaction \<Rightarrow> error + (unit \<times> transaction)" where
  "no_bitmap_update alloc bnos bc tr = Inr (bc, tr)"

definition ex_flush :: "unit flush_state" where
  "ex_flush = \<lparr>current_offset = 0, transaction_log = [ex_trans], trans = [], prune_trans = [],
                processed_trans_vec = [], cur_timestamp = 0, prolog_timestamp = 0, bufcache = (),
                events = []\<rparr>"

subsection \<open>Inodes, blocks and truncation (fs.cc)\<close>

text \<open>
  The in-memory inode: the fields of \<^verbatim>\<open>struct inode\<close> that the modelled functions use.
  \<open>itype\<close> is the field \<^verbatim>\<open>type\<close>, \<open>isize\<close> the field \<^verbatim>\<open>size\<close>, \<open>nlink_count\<close> the field
  \<^verbatim>\<open>nlink_\<close>. \<open>addrs\<close> has \<open>NDIRECT + 2\<close> entries; \<open>iaddrs\<close> is the cached copy of the
  indirect block, if there is one.
\<close>

record inode =
  dev :: u32
  inum :: u32
  itype :: "16 word"
  nlink_count :: "16 word"
  isize :: u32
  gen :: u32
  addrs :: "u32 list"
  iaddrs :: "u32 list option"
  busy :: bool
  readbusy :: int
  valid :: bool

text \<open>
  A block of the buffer cache is its \<open>BSIZE\<close> bytes. Indirect blocks are read as arrays
  of \<^verbatim>\<open>u32\<close>, little-endian as on the x86-64 target.
\<close>

definition get_u32 :: "payload \<Rightarrow> nat \<Rightarrow> u32" where
  "get_u32 d i =
     word_of_nat (unat (d ! (4 * i)) + 256 * unat (d ! (4 * i + 1)) +
                  65536 * unat (d ! (4 * i + 2)) + 16777216 * unat (d ! (4 * i + 3)))"

definition u32_bytes :: "u32 \<Rightarrow> u8 list" where
  "u32_bytes v = [ucast v, ucast (drop_bit 8 v), ucast (drop_bit 16 v), ucast (drop_bit 24 v)]"

definition set_u32 :: "payload \<Rightarrow> nat \<Rightarrow> u32 \<Rightarrow> payload" where
  "set_u32 d i v = take (4 * i) d @ u32_bytes v @ drop (4 * i + 4) d"

text \<open>\<^verbatim>\<open>memmove(locked->data, iaddrs, IADDRSSZ)\<close>: the cached array overwrites the start of the block.\<close>

definition store_iaddrs :: "u32 list \<Rightarrow> payload \<Rightarrow> payload" where
  "store_iaddrs ia d = concat (map u32_bytes ia) @ drop (4 * length ia) d"

definition BLOCKROUNDUP :: "fs_params \<Rightarrow> nat \<Rightarrow> nat" where
  "BLOCKROUNDUP P off = (if off mod BSIZE P \<noteq> 0 then off div BSIZE P + 1 else off div BSIZE P)"

text \<open>
  \<^verbatim>\<open>bfree(dev, x, trans, delayed_free)\<close>: on device 1 the block is freed in the in-memory
  allocator unless the free is delayed, and it is recorded in the transaction, if there
  is one. Other devices are ignored.
\<close>

definition bfree ::
  "u32 \<Rightarrow> u64 \<Rightarrow> transaction option \<Rightarrow> bool \<Rightarrow> allocator \<Rightarrow> error + (transaction option \<times> allocator)" where
  "bfree dv x trans' delayed_free a =
     (let b = (ucast x :: u32)
      in if dv = 1 then
           (case (if \<not> delayed_free then free_block b a else Inr a) of
              Inl e \<Rightarrow> Inl e
            | Inr a' \<Rightarrow>
                Inr (map_option (\<lambda>t. t\<lparr>free_block_list := free_block_list t @ [b]\<rparr>) trans', a'))
         else Inr (trans', a))"

text \<open>
  \<^verbatim>\<open>post_process_transaction\<close>: \<^verbatim>\<open>free_block\<close> is called for the entries of
  \<^verbatim>\<open>free_block_list\<close>, first to last; a panic ends the iteration.
\<close>

fun free_blocks :: "u32 list \<Rightarrow> allocator \<Rightarrow> error + allocator" where
  "free_blocks [] a = Inr a"
| "free_blocks (f # fs) a = (case free_block f a of Inl e \<Rightarrow> Inl e | Inr a' \<Rightarrow> free_blocks fs a')"

definition post_process_transaction :: "transaction \<Rightarrow> allocator \<Rightarrow> error + allocator" where
  "post_process_transaction t a = free_blocks (free_block_list t) a"

text \<open>
  The state \<^verbatim>\<open>itrunc\<close> works on: the inode, the transaction (or none), the blocks of the
  buffer cache of the inode's device, and the allocator.
\<close>

record trunc_state =
  ts_ip :: inode
  ts_trans :: "transaction option"
  ts_bufs :: "u32 \<Rightarrow> payload"
  ts_alloc :: allocator

text \<open>A call \<^verbatim>\<open>bfree(ip->dev, bno, trans, true)\<close> from \<^verbatim>\<open>itrunc\<close>.\<close>

definition bfree_delayed :: "u32 \<Rightarrow> trunc_state \<Rightarrow> error + trunc_state" where
  "bfree_delayed bno s =
     (case bfree (dev (ts_ip s)) (ucast bno) (ts_trans s) True (ts_alloc s) of
        Inl e \<Rightarrow> Inl e
      | Inr (t, a) \<Rightarrow> Inr (s\<lparr>ts_trans := t, ts_alloc := a\<rparr>))"

text \<open>
  Modelled from the spec: the one-argument \<^verbatim>\<open>buf::add_to_transaction(trans)\<close> is declared
  in buf.hh, which is not part of the sources. Section 6: "enroll this block's current
  contents into \<open>tr\<close> and mark clean".
\<close>

definition add_to_transaction :: "u32 \<Rightarrow> trunc_state \<Rightarrow> trunc_state" where
  "add_to_transaction bno s =
     s\<lparr>ts_trans := map_option (\<lambda>t. t\<lparr>blocks := blocks t @ [(bno, ts_bufs s bno)]\<rparr>) (ts_trans s)\<rparr>"

text \<open>The loop over the direct blocks, for the indices \<open>is\<close> in order.\<close>

fun itrunc_direct :: "nat list \<Rightarrow> trunc_state \<Rightarrow> error + trunc_state" where
  "itrunc_direct [] s = Inr s"
| "itrunc_direct (i # is) s =
     (if addrs (ts_ip s) ! i \<noteq> 0 then
        (case bfree_delayed (addrs (ts_ip s) ! i) s of
           Inl e \<Rightarrow> Inl e
         | Inr s' \<Rightarrow> itrunc_direct is (s'\<lparr>ts_ip := (ts_ip s')\<lparr>addrs := (addrs (ts_ip s'))[i := 0]\<rparr>\<rparr>))
      else itrunc_direct is s)"

text \<open>
  The loop over the entries of the block \<open>blk\<close> read as an array (the indirect block, or a
  second-level block of the double-indirect tree).
\<close>

fun itrunc_entries :: "u32 \<Rightarrow> nat list \<Rightarrow> trunc_state \<Rightarrow> error + trunc_state" where
  "itrunc_entries blk [] s = Inr s"
| "itrunc_entries blk (i # is) s =
     (if get_u32 (ts_bufs s blk) i \<noteq> 0 then
        (case bfree_delayed (get_u32 (ts_bufs s blk) i) s of
           Inl e \<Rightarrow> Inl e
         | Inr s' \<Rightarrow>
             itrunc_entries blk is (s'\<lparr>ts_bufs := (ts_bufs s')(blk := set_u32 (ts_bufs s' blk) i 0)\<rparr>))
      else itrunc_entries blk is s)"

text \<open>The loop over the first-level block \<open>blk1\<close> of the double-indirect tree.\<close>

fun itrunc_double :: "fs_params \<Rightarrow> u32 \<Rightarrow> nat \<Rightarrow> nat list \<Rightarrow> trunc_state \<Rightarrow> error + trunc_state" where
  "itrunc_double P blk1 bno [] s = Inr s"
| "itrunc_double P blk1 bno (i # is) s =
     (if get_u32 (ts_bufs s blk1) i = 0 then itrunc_double P blk1 bno is s
      else
        (let start = (if i = bno div NINDIRECT P then bno mod NINDIRECT P else 0);
             blk2 = get_u32 (ts_bufs s blk1) i
         in case itrunc_entries blk2 [start..<NINDIRECT P] s of
              Inl e \<Rightarrow> Inl e
            | Inr s1 \<Rightarrow>
                (let s2 = (if ts_trans s1 \<noteq> None \<and> start \<noteq> 0 then add_to_transaction blk2 s1 else s1)
                 in if start = 0 then
                      (case bfree_delayed (get_u32 (ts_bufs s2 blk1) i) s2 of
                         Inl e \<Rightarrow> Inl e
                       | Inr s3 \<Rightarrow>
                           itrunc_double P blk1 bno is
                             (s3\<lparr>ts_bufs := (ts_bufs s3)(blk1 := set_u32 (ts_bufs s3 blk1) i 0)\<rparr>))
                    else itrunc_double P blk1 bno is s2)))"

definition itrunc_indirect :: "fs_params \<Rightarrow> nat \<Rightarrow> trunc_state \<Rightarrow> error + trunc_state" where
  "itrunc_indirect P off s =
     (if addrs (ts_ip s) ! NDIRECT P \<noteq> 0 then
        (let start = (if off \<ge> NDIRECT P * BSIZE P then BLOCKROUNDUP P (off - NDIRECT P * BSIZE P) else 0);
             blk = addrs (ts_ip s) ! NDIRECT P;
             s1 = (case iaddrs (ts_ip s) of
                     Some ia \<Rightarrow> s\<lparr>ts_bufs := (ts_bufs s)(blk := store_iaddrs ia (ts_bufs s blk))\<rparr>
                   | None \<Rightarrow> s)
         in case itrunc_entries blk [start..<NINDIRECT P] s1 of
              Inl e \<Rightarrow> Inl e
            | Inr s2 \<Rightarrow>
                (let s3 = (if ts_trans s2 \<noteq> None \<and> start \<noteq> 0 then add_to_transaction blk s2 else s2)
                 in case (if start = 0 then
                            (case bfree_delayed (addrs (ts_ip s3) ! NDIRECT P) s3 of
                               Inl e \<Rightarrow> Inl e
                             | Inr s4 \<Rightarrow>
                                 Inr (s4\<lparr>ts_ip := (ts_ip s4)\<lparr>addrs := (addrs (ts_ip s4))[NDIRECT P := 0]\<rparr>\<rparr>))
                          else Inr s3) of
                      Inl e \<Rightarrow> Inl e
                    | Inr s5 \<Rightarrow> Inr (s5\<lparr>ts_ip := (ts_ip s5)\<lparr>iaddrs := None\<rparr>\<rparr>)))
      else Inr s)"

definition itrunc_dindirect :: "fs_params \<Rightarrow> nat \<Rightarrow> trunc_state \<Rightarrow> error + trunc_state" where
  "itrunc_dindirect P off s =
     (if addrs (ts_ip s) ! (NDIRECT P + 1) \<noteq> 0 then
        (let bno = (if off \<ge> (NDIRECT P + NINDIRECT P) * BSIZE P
                    then BLOCKROUNDUP P (off - (NDIRECT P + NINDIRECT P) * BSIZE P) else 0);
             blk1 = addrs (ts_ip s) ! (NDIRECT P + 1)
         in case itrunc_double P blk1 bno [bno div NINDIRECT P..<NINDIRECT P] s of
              Inl e \<Rightarrow> Inl e
            | Inr s1 \<Rightarrow>
                (let s2 = (if ts_trans s1 \<noteq> None \<and> bno \<noteq> 0 then add_to_transaction blk1 s1 else s1)
                 in if bno = 0 then
                      (case bfree_delayed (addrs (ts_ip s2) ! (NDIRECT P + 1)) s2 of
                         Inl e \<Rightarrow> Inl e
                       | Inr s3 \<Rightarrow>
                           Inr (s3\<lparr>ts_ip := (ts_ip s3)\<lparr>addrs := (addrs (ts_ip s3))[NDIRECT P + 1 := 0]\<rparr>\<rparr>))
                    else Inr s2))
      else Inr s)"

text \<open>
  \<^verbatim>\<open>itrunc(ip, offset, trans)\<close>: nothing to do when the file is not longer than
  \<open>offset\<close>; otherwise the direct blocks, the indirect block and the double-indirect tree
  beyond \<open>offset\<close> are released with delayed frees, and the size is set.
\<close>

definition itrunc :: "fs_params \<Rightarrow> u32 \<Rightarrow> trunc_state \<Rightarrow> error + trunc_state" where
  "itrunc P offset s =
     (if isize (ts_ip s) \<le> offset then Inr s
      else
        (case itrunc_direct [BLOCKROUNDUP P (unat offset)..<NDIRECT P] s of
           Inl e \<Rightarrow> Inl e
         | Inr s1 \<Rightarrow>
             (case itrunc_indirect P (unat offset) s1 of
                Inl e \<Rightarrow> Inl e
              | Inr s2 \<Rightarrow>
                  (case itrunc_dindirect P (unat offset) s2 of
                     Inl e \<Rightarrow> Inl e
                   | Inr s3 \<Rightarrow> Inr (s3\<lparr>ts_ip := (ts_ip s3)\<lparr>isize := offset\<rparr>\<rparr>)))))"

text \<open>
  A file of two direct blocks (3 and 4) on device 1, with \<open>NDIRECT = 2\<close>, \<open>NINDIRECT = 2\<close>
  and 8-byte blocks; blocks 0, 3 and 4 are allocated, blocks 1 and 2 are free.
\<close>

definition ex_small :: fs_params where
  "ex_small = \<lparr>hdr_size = 4, BSIZE = 8, PHYS_JOURNAL_SIZE = 48, NDIRECT = 2, NINDIRECT = 2, MAXFILE = 8, T_DEV = 3\<rparr>"

definition ex_inode :: inode where
  "ex_inode = \<lparr>dev = 1, inum = 2, itype = 1, nlink_count = 1, isize = 16, gen = 0,
               addrs = [3, 4, 0, 0], iaddrs = None, busy = True, readbusy = 1, valid = True\<rparr>"

definition ex_alloc5 :: allocator where
  "ex_alloc5 = \<lparr>free_bit_vector =
                   [\<lparr>bit_bno = 0, is_free = False\<rparr>, \<lparr>bit_bno = 1, is_free = True\<rparr>,
                    \<lparr>bit_bno = 2, is_free = True\<rparr>, \<lparr>bit_bno = 3, is_free = False\<rparr>,
                    \<lparr>bit_bno = 4, is_free = False\<rparr>],
                 free_bit_freelist = [1, 2]\<rparr>"

definition ex_empty_trans :: transaction where
  "ex_empty_trans = \<lparr>trans_timestamp = 7, blocks = [], allocated_block_list = [], free_block_list = []\<rparr>"

definition ex_trunc :: trunc_state where
  "ex_trunc = \<lparr>ts_ip = ex_inode, ts_trans = Some ex_empty_trans,
               ts_bufs = (\<lambda>_. replicate 8 0), ts_alloc = ex_alloc5\<rparr>"

text \<open>A result that is not an error and whose allocator is \<open>a\<close>.\<close>

definition keeps_alloc :: "error + trunc_state \<Rightarrow> allocator \<Rightarrow> bool" where
  "keeps_alloc r a \<longleftrightarrow> (case r of Inl e \<Rightarrow> False | Inr s' \<Rightarrow> ts_alloc s' = a)"

text \<open>The transaction after the truncation of \<open>ex_inode\<close> to length 0.\<close>

definition ex_freed :: transaction where
  "ex_freed = ex_empty_trans\<lparr>free_block_list := [3, 4]\<rparr>"

subsection \<open>Inode allocation (fs.cc)\<close>

text \<open>
  The on-disk inode (\<^verbatim>\<open>struct dinode\<close>), the inode cache \<^verbatim>\<open>ins\<close> of one device, the
  per-cpu hint \<^verbatim>\<open>last_inode\<close> and the console. The code runs on one core at a time in
  this model: an inode that is locked by somebody else cannot become free while
  \<^verbatim>\<open>ilock\<close> sleeps, so \<^verbatim>\<open>ilock\<close> on a busy inode is the error \<open>WouldBlock\<close>.
\<close>

record dinode =
  d_type :: "16 word"
  d_nlink :: "16 word"
  d_size :: u32
  d_gen :: u32
  d_addrs :: "u32 list"

record inode_state =
  ins :: "u32 \<Rightarrow> inode option"
  dinodes :: "u32 \<Rightarrow> dinode"
  last_inode :: "nat \<Rightarrow> u32"
  ninodes_root :: u32
  iconsole :: "string list"

datatype lock_error = LockPanic string | WouldBlock

text \<open>
  \<^verbatim>\<open>ilock(ip, writer)\<close>: a writer waits for \<^verbatim>\<open>!busy && !readbusy\<close> and sets \<^verbatim>\<open>busy\<close>, a
  reader waits for \<^verbatim>\<open>!busy\<close>; both increment \<^verbatim>\<open>readbusy\<close>; an inode that is not valid
  panics.
\<close>

definition ilock :: "inode \<Rightarrow> bool \<Rightarrow> lock_error + inode" where
  "ilock ip writer =
     (if writer then
        (if busy ip \<or> readbusy ip \<noteq> 0 then Inl WouldBlock
         else if \<not> valid ip then Inl (LockPanic ''ilock'')
         else Inr (ip\<lparr>busy := True, readbusy := readbusy ip + 1\<rparr>))
      else
        (if busy ip then Inl WouldBlock
         else if \<not> valid ip then Inl (LockPanic ''ilock'')
         else Inr (ip\<lparr>readbusy := readbusy ip + 1\<rparr>)))"

text \<open>\<^verbatim>\<open>iunlock(ip)\<close>: panics on an inode that nobody holds.\<close>

definition iunlock :: "inode \<Rightarrow> lock_error + inode" where
  "iunlock ip =
     (if readbusy ip = 0 \<and> \<not> busy ip then Inl (LockPanic ''iunlock'')
      else Inr (ip\<lparr>readbusy := readbusy ip - 1, busy := False\<rparr>))"

text \<open>
  \<^verbatim>\<open>iget(dev, inum)\<close>: the cached inode, or a fresh one that is inserted locked, filled
  from the disk by \<^verbatim>\<open>inode::init\<close> and unlocked.
\<close>

definition iget :: "u32 \<Rightarrow> u32 \<Rightarrow> inode_state \<Rightarrow> inode \<times> inode_state" where
  "iget dv i st =
     (case ins st i of
        Some ip \<Rightarrow> (ip, st)
      | None \<Rightarrow>
          (let dip = dinodes st i;
               ip = \<lparr>dev = dv, inum = i, itype = d_type dip, nlink_count = d_nlink dip,
                     isize = d_size dip, gen = d_gen dip, addrs = d_addrs dip, iaddrs = None,
                     busy = False, readbusy = 0, valid = True\<rparr>
           in (ip, st\<lparr>ins := (ins st)(i := Some ip)\<rparr>)))"

text \<open>
  \<^verbatim>\<open>try_ialloc(inum, dev, type)\<close>: an inode whose type is not 0 is refused; otherwise the
  compare-and-swap installs the type (on one core it cannot fail), the inode is locked
  for writing, its generation is incremented, it is checked to be zeroed, and it is
  unlocked before it is returned. The result is the inode number of the claimed inode.
\<close>

definition try_ialloc :: "u32 \<Rightarrow> u32 \<Rightarrow> 16 word \<Rightarrow> inode_state \<Rightarrow> lock_error + (u32 option \<times> inode_state)" where
  "try_ialloc i dv ty st =
     (let (ip, st1) = iget dv i st
      in if itype ip \<noteq> 0 then Inr (None, st1)
         else
           (case ilock (ip\<lparr>itype := ty\<rparr>) True of
              Inl e \<Rightarrow> Inl e
            | Inr ip1 \<Rightarrow>
                (let ip2 = ip1\<lparr>gen := gen ip1 + 1\<rparr>
                 in if nlink_count ip2 \<noteq> 0 \<or> isize ip2 \<noteq> 0 \<or> addrs ip2 ! 0 \<noteq> 0
                    then Inl (LockPanic ''try_ialloc: inode not zeroed'')
                    else
                      (case iunlock ip2 of
                         Inl e \<Rightarrow> Inl e
                       | Inr ip3 \<Rightarrow> Inr (Some i, st1\<lparr>ins := (ins st1)(i := Some ip3)\<rparr>)))))"

text \<open>
  The loop of \<^verbatim>\<open>ialloc\<close>. \<open>k\<close> is \<^verbatim>\<open>inum\<close>, \<open>n\<close> is \<^verbatim>\<open>sb_root.ninodes\<close>; all comparisons
  of the source are unsigned and \<open>k\<close> stays at most \<open>n\<close>, so natural numbers are exact.
  Inode 0 is skipped; at \<open>n - 1\<close> the scan wraps, once, to inode 1.
\<close>

function ialloc_loop ::
  "u32 \<Rightarrow> 16 word \<Rightarrow> nat \<Rightarrow> nat \<Rightarrow> nat \<Rightarrow> bool \<Rightarrow> inode_state \<Rightarrow> lock_error + (u32 option \<times> inode_state)" where
  "ialloc_loop dv ty cpu n k all_scanned st =
     (if \<not> k < n then Inr (None, st\<lparr>iconsole := iconsole st @ [''ialloc: 0/%u inodes'']\<rparr>)
      else if k = 0 then ialloc_loop dv ty cpu n (k + 1) all_scanned st
      else
        (case try_ialloc (word_of_nat k) dv ty st of
           Inl e \<Rightarrow> Inl e
         | Inr (Some ip, st1) \<Rightarrow> Inr (Some ip, st1\<lparr>last_inode := (last_inode st1)(cpu := word_of_nat k)\<rparr>)
         | Inr (None, st1) \<Rightarrow>
             if k = n - 1 \<and> \<not> all_scanned then ialloc_loop dv ty cpu n 1 True st1
             else ialloc_loop dv ty cpu n (k + 1) all_scanned st1))"
  by pat_completeness auto
termination
  by (relation "measure (\<lambda>(dv, ty, cpu, n, k, all_scanned, st). (if all_scanned then 0 else n + 1) + (n - k))")
     auto

text \<open>
  \<^verbatim>\<open>ialloc(dev, type)\<close> on the core \<open>cpu\<close>: the scan starts at
  \<^verbatim>\<open>(last_inode[cpu] + 1) % ninodes\<close>; the remainder by 0 is undefined.
\<close>

definition ialloc :: "u32 \<Rightarrow> 16 word \<Rightarrow> nat \<Rightarrow> inode_state \<Rightarrow> lock_error + (u32 option \<times> inode_state)" where
  "ialloc dv ty cpu st =
     (if ninodes_root st = 0 then Inl (LockPanic ''remainder by zero'')
      else ialloc_loop dv ty cpu (unat (ninodes_root st))
             (unat ((last_inode st cpu + 1) mod ninodes_root st)) False st)"

text \<open>
  Four inodes on device 1: inode 1 is a directory, inodes 2 and 3 are free and zeroed;
  nothing is cached, the hint of core 0 is inode 1.
\<close>

definition ex_dinode_free :: dinode where
  "ex_dinode_free = \<lparr>d_type = 0, d_nlink = 0, d_size = 0, d_gen = 0, d_addrs = [0, 0, 0, 0]\<rparr>"

definition ex_inode_state :: inode_state where
  "ex_inode_state =
     \<lparr>ins = (\<lambda>_. None),
      dinodes = (\<lambda>i. if i = 1 then ex_dinode_free\<lparr>d_type := 1, d_nlink := 1\<rparr> else ex_dinode_free),
      last_inode = (\<lambda>_. 1), ninodes_root = 4, iconsole = []\<rparr>"

subsection \<open>Rename pairs (scalefs.cc)\<close>












subsection \<open>Block mapping and writing (fs.cc)\<close>

text \<open>
  The state \<^verbatim>\<open>writei\<close> works on: the inode, the transaction (or none), the blocks as the
  buffer cache shows them, the blocks on disk, the allocator, \<^verbatim>\<open>sb_root\<close> and the console.
  A failing call returns the error together with the state it leaves behind.
\<close>

record wstate =
  w_ip :: inode
  w_trans :: "transaction option"
  w_bufs :: "u32 \<Rightarrow> payload"
  w_disk :: "u32 \<Rightarrow> payload"
  w_alloc :: allocator
  w_sb :: superblock
  w_console :: "string list"

text \<open>
  \<^verbatim>\<open>balloc(dev, trans, zero_on_alloc)\<close>, in the build with exceptions: a block number
  below \<^verbatim>\<open>sb_root.size\<close> is recorded in the transaction, zeroed in the buffer cache on
  request and returned; anything else, and any device other than 1, throws
  \<^verbatim>\<open>out_of_blocks\<close>.
\<close>

definition balloc :: "fs_params \<Rightarrow> bool \<Rightarrow> wstate \<Rightarrow> (error \<times> wstate) + (u32 \<times> wstate)" where
  "balloc P zero_on_alloc s =
     (if dev (w_ip s) = 1 then
        (case alloc_block (w_sb s) (w_alloc s) of
           Inl e \<Rightarrow> Inl (e, s)
         | Inr (b, a) \<Rightarrow>
             (let s1 = s\<lparr>w_alloc := a\<rparr>
              in if b < size (w_sb s) then
                   (let s2 = s1\<lparr>w_trans := map_option (\<lambda>t. t\<lparr>allocated_block_list := allocated_block_list t @ [b]\<rparr>)
                                             (w_trans s1)\<rparr>;
                        s3 = (if zero_on_alloc then s2\<lparr>w_bufs := (w_bufs s2)(b := replicate (BSIZE P) 0)\<rparr> else s2)
                    in Inr (b, s3))
                 else Inl (OutOfBlocks, s1)))
      else Inl (OutOfBlocks, s))"

text \<open>\<^verbatim>\<open>wb->add_to_transaction(trans)\<close> under \<^verbatim>\<open>if (trans)\<close>, for a block of the buffer cache.\<close>

definition w_add_to_transaction :: "u32 \<Rightarrow> wstate \<Rightarrow> wstate" where
  "w_add_to_transaction bno s =
     s\<lparr>w_trans := map_option (\<lambda>t. t\<lparr>blocks := blocks t @ [(bno, w_bufs s bno)]\<rparr>) (w_trans s)\<rparr>"

text \<open>
  The \<^verbatim>\<open>for (;;)\<close> loops of the double-indirect case of \<^verbatim>\<open>bmap\<close>: an entry that is 0 gets
  a freshly allocated block and is read again. Every turn of the loop takes a block from
  the freelist or ends the loop with an exception.
\<close>

function bmap_entry :: "fs_params \<Rightarrow> u32 \<Rightarrow> nat \<Rightarrow> bool \<Rightarrow> wstate \<Rightarrow> (error \<times> wstate) + (u32 \<times> wstate)" where
  "bmap_entry P wb idx zero_on_alloc s =
     (if get_u32 (w_bufs s wb) idx = 0 then
        (case balloc P zero_on_alloc s of
           Inl e \<Rightarrow> Inl e
         | Inr (b, s1) \<Rightarrow>
             bmap_entry P wb idx zero_on_alloc
               (w_add_to_transaction wb (s1\<lparr>w_bufs := (w_bufs s1)(wb := set_u32 (w_bufs s1 wb) idx b)\<rparr>)))
      else Inr (get_u32 (w_bufs s wb) idx, s))"
  by pat_completeness auto
termination
  by (relation "measure (\<lambda>(P, wb, idx, z, s). length (free_bit_freelist (w_alloc s)))")
     (auto simp: balloc_def alloc_block_def w_add_to_transaction_def Let_def
        split: if_splits sum.splits list.splits prod.splits)

text \<open>
  \<^verbatim>\<open>bmap(ip, bn, trans, zero_on_alloc)\<close> on one core: every compare-and-swap finds the
  value that was just read, so the retry paths are not taken. The three cases of the
  source are the three functions below: a slot of \<^verbatim>\<open>ip->addrs\<close> (a direct block, the
  indirect block or the double-indirect block, each allocated when the slot is 0), the
  indirect block through the cached array \<^verbatim>\<open>iaddrs\<close>, a copy of which goes to the
  transaction, and the two levels of the double-indirect tree.
\<close>

definition bmap_direct :: "fs_params \<Rightarrow> nat \<Rightarrow> bool \<Rightarrow> wstate \<Rightarrow> (error \<times> wstate) + (u32 \<times> wstate)" where
  "bmap_direct P bn zero_on_alloc s =
     (if addrs (w_ip s) ! bn = 0 then
        (case balloc P zero_on_alloc s of
           Inl e \<Rightarrow> Inl e
         | Inr (addr, s1) \<Rightarrow> Inr (addr, s1\<lparr>w_ip := (w_ip s1)\<lparr>addrs := (addrs (w_ip s1))[bn := addr]\<rparr>\<rparr>))
      else Inr (addrs (w_ip s) ! bn, s))"

text \<open>The block under \<^verbatim>\<open>if (ip->iaddrs == nullptr)\<close>: the result is the cached array.\<close>

definition bmap_load_iaddrs :: "fs_params \<Rightarrow> wstate \<Rightarrow> (error \<times> wstate) + (u32 list \<times> wstate)" where
  "bmap_load_iaddrs P s =
     (case iaddrs (w_ip s) of
        Some ia \<Rightarrow> Inr (ia, s)
      | None \<Rightarrow>
          (case bmap_direct P (NDIRECT P) True s of
             Inl e \<Rightarrow> Inl e
           | Inr (addr, s2) \<Rightarrow>
               (let ia = map (get_u32 (w_bufs s2 addr)) [0..<NINDIRECT P]
                in Inr (ia, s2\<lparr>w_ip := (w_ip s2)\<lparr>iaddrs := Some ia\<rparr>\<rparr>))))"

definition bmap_indirect :: "fs_params \<Rightarrow> nat \<Rightarrow> bool \<Rightarrow> wstate \<Rightarrow> (error \<times> wstate) + (u32 \<times> wstate)" where
  "bmap_indirect P i zero_on_alloc s =
     (case bmap_load_iaddrs P s of
        Inl e \<Rightarrow> Inl e
      | Inr (ia, s3) \<Rightarrow>
          (if ia ! i = 0 then
             (case balloc P zero_on_alloc s3 of
                Inl e \<Rightarrow> Inl e
              | Inr (addr, s4) \<Rightarrow>
                  (let ia' = ia[i := addr];
                       s5 = s4\<lparr>w_ip := (w_ip s4)\<lparr>iaddrs := Some ia'\<rparr>\<rparr>
                   in Inr (addr,
                           s5\<lparr>w_trans :=
                                map_option (\<lambda>t. t\<lparr>blocks := blocks t @
                                    [(addrs (w_ip s5) ! NDIRECT P, store_iaddrs ia' (replicate (BSIZE P) 0))]\<rparr>)
                                  (w_trans s5)\<rparr>)))
           else Inr (ia ! i, s3)))"

definition bmap_double :: "fs_params \<Rightarrow> nat \<Rightarrow> bool \<Rightarrow> wstate \<Rightarrow> (error \<times> wstate) + (u32 \<times> wstate)" where
  "bmap_double P bn2 zero_on_alloc s =
     (case bmap_direct P (NDIRECT P + 1) True s of
        Inl e \<Rightarrow> Inl e
      | Inr (wb, s2) \<Rightarrow>
          (case bmap_entry P wb (bn2 div NINDIRECT P) True s2 of
             Inl e \<Rightarrow> Inl e
           | Inr (addr, s3) \<Rightarrow> bmap_entry P addr (bn2 mod NINDIRECT P) zero_on_alloc s3))"

definition bmap :: "fs_params \<Rightarrow> nat \<Rightarrow> bool \<Rightarrow> wstate \<Rightarrow> (error \<times> wstate) + (u32 \<times> wstate)" where
  "bmap P bn zero_on_alloc s =
     (if bn < NDIRECT P then bmap_direct P bn zero_on_alloc s
      else if bn - NDIRECT P < NINDIRECT P then bmap_indirect P (bn - NDIRECT P) zero_on_alloc s
      else if bn - NDIRECT P - NINDIRECT P \<ge> NINDIRECT P * NINDIRECT P then
        Inl (Panic ''bmap: out of range'', s)
      else bmap_double P (bn - NDIRECT P - NINDIRECT P) zero_on_alloc s)"

text \<open>
  The loop of \<^verbatim>\<open>writei\<close>. \<open>tot\<close>, \<open>n\<close> and \<open>off\<close> are the values of the variables as
  unsigned numbers (the comparison \<^verbatim>\<open>tot<n\<close> of the source is unsigned); \<open>off\<close> is the
  \<^verbatim>\<open>u32\<close> of the source. The value returned is \<^verbatim>\<open>tot\<close> read as an \<^verbatim>\<open>int\<close>. \<^verbatim>\<open>off % BSIZE\<close> with
  \<^verbatim>\<open>BSIZE\<close> 0 is undefined. The \<^verbatim>\<open>catch\<close> handles \<^verbatim>\<open>out_of_blocks\<close> and nothing else.
  \<open>write_chunk\<close> is the rest of the loop body: the \<^verbatim>\<open>memmove\<close> of \<open>m\<close> bytes into the
  block, which then goes to the transaction or, with \<^verbatim>\<open>writeback\<close>, to the disk.
\<close>

definition write_chunk :: "fs_params \<Rightarrow> payload \<Rightarrow> bool \<Rightarrow> nat \<Rightarrow> u32 \<Rightarrow> nat \<Rightarrow> u32 \<Rightarrow> wstate \<Rightarrow> wstate" where
  "write_chunk P src writeback tot off m bnum s1 =
     (let d = take (unat off mod BSIZE P) (w_bufs s1 bnum) @ take m (drop tot src) @
              drop (unat off mod BSIZE P + m) (w_bufs s1 bnum);
          s2 = s1\<lparr>w_bufs := (w_bufs s1)(bnum := d)\<rparr>;
          s3 = (if \<not> writeback then w_add_to_transaction bnum s2 else s2)
      in if writeback then s3\<lparr>w_disk := (w_disk s3)(bnum := d)\<rparr> else s3)"

function writei_loop ::
  "fs_params \<Rightarrow> payload \<Rightarrow> nat \<Rightarrow> bool \<Rightarrow> nat \<Rightarrow> u32 \<Rightarrow> wstate \<Rightarrow> (error \<times> wstate) + (int \<times> wstate)" where
  "writei_loop P src n writeback tot off s =
     (if tot < n then
        (let m = min (n - tot) (BSIZE P - unat off mod BSIZE P)
         in if m = 0 then Inl (Undefined ''BSIZE is 0'', s)
            else
              (let skip_disk_read = (unat off mod BSIZE P = 0 \<and> m = BSIZE P)
               in case bmap P (unat off div BSIZE P) (\<not> skip_disk_read) s of
                    Inl (OutOfBlocks, s1) \<Rightarrow>
                      Inr (if tot = 0 then - 1 else sint (word_of_nat tot :: u32),
                           s1\<lparr>w_console := w_console s1 @ [''writei: out of blocks'']\<rparr>)
                  | Inl (e, s1) \<Rightarrow> Inl (e, s1)
                  | Inr (bnum, s1) \<Rightarrow>
                      writei_loop P src n writeback (tot + m) (off + word_of_nat m)
                        (write_chunk P src writeback tot off m bnum s1)))
      else Inr (sint (word_of_nat tot :: u32), s))"
  by pat_completeness auto
termination
  by (relation "measure (\<lambda>(P, src, n, writeback, tot, off, s). n - tot)") auto

text \<open>
  \<^verbatim>\<open>writei(ip, src, off, n, trans, writeback)\<close>. The bound \<^verbatim>\<open>MAXFILE*BSIZE\<close> is the product
  of the two constants; the clamped length is that product minus \<open>off\<close>, stored in a
  \<^verbatim>\<open>u32\<close>.
\<close>

definition writei_clamp :: "fs_params \<Rightarrow> u32 \<Rightarrow> u32 \<Rightarrow> u32" where
  "writei_clamp P off n =
     (if unat (off + n) > MAXFILE P * BSIZE P
      then word_of_int (int (MAXFILE P * BSIZE P) - uint off) else n)"

definition writei ::
  "fs_params \<Rightarrow> payload \<Rightarrow> u32 \<Rightarrow> u32 \<Rightarrow> bool \<Rightarrow> wstate \<Rightarrow> (error \<times> wstate) + (int \<times> wstate)" where
  "writei P src off n writeback s =
     (if itype (w_ip s) = T_DEV P then Inr (- 1, s)
      else if off + n < off then Inr (- 1, s)
      else writei_loop P src (unat (writei_clamp P off n)) writeback 0 off s)"

declare bmap_entry.simps [simp del]
declare writei_loop.simps [simp del]









section \<open>Properties\<close>

subsection \<open>The allocator's representation invariant\<close>

lemma free_positions_set:
  "set (free_positions a) = {i. i < length (free_bit_vector a) \<and> is_free (free_bit_vector a ! i)}"
  by (auto simp: free_positions_def)

lemma alloc_inv_mem:
  assumes "alloc_inv a"
  shows "i \<in> set (free_bit_freelist a) \<longleftrightarrow> i < length (free_bit_vector a) \<and> is_free (free_bit_vector a ! i)"
proof -
  have "set (free_bit_freelist a) = set (free_positions a)"
    using assms unfolding alloc_inv_def by blast
  then show ?thesis unfolding free_positions_set by blast
qed

lemma alloc_inv_bno:
  assumes "alloc_inv a" "i < length (free_bit_vector a)"
  shows "unat (bit_bno (free_bit_vector a ! i)) = i"
proof -
  from assms(1) have "map (\<lambda>b. unat (bit_bno b)) (free_bit_vector a) ! i = [0..<length (free_bit_vector a)] ! i"
    by (simp add: alloc_inv_def)
  with assms(2) show ?thesis by simp
qed

lemma map_bit_bno_update:
  assumes "map (\<lambda>b. unat (bit_bno b)) v = [0..<length v]" "i < length v"
  shows "map (\<lambda>b. unat (bit_bno b)) (v[i := (v ! i)\<lparr>is_free := f\<rparr>]) = [0..<length v]"
proof -
  have "map (\<lambda>b. unat (bit_bno b)) (v[i := (v ! i)\<lparr>is_free := f\<rparr>]) = map (\<lambda>b. unat (bit_bno b)) v"
    using assms(2) by (simp add: list_eq_iff_nth_eq nth_list_update)
  with assms(1) show ?thesis by simp
qed

lemma count_list_distinct_mem:
  "distinct xs \<Longrightarrow> x \<in> set xs \<Longrightarrow> count_list xs x = 1"
  by (induction xs) auto

lemma alloc_invI:
  assumes "distinct (free_bit_freelist a)"
    and "\<And>i. i \<in> set (free_bit_freelist a) \<longleftrightarrow> i < length (free_bit_vector a) \<and> is_free (free_bit_vector a ! i)"
    and "map (\<lambda>b. unat (bit_bno b)) (free_bit_vector a) = [0..<length (free_bit_vector a)]"
  shows "alloc_inv a"
proof -
  have "set (free_bit_freelist a) = set (free_positions a)"
  proof (rule set_eqI)
    fix i show "i \<in> set (free_bit_freelist a) \<longleftrightarrow> i \<in> set (free_positions a)"
      unfolding free_positions_set using assms(2)[of i] by simp
  qed
  with assms(1,3) show ?thesis unfolding alloc_inv_def by blast
qed

lemma alloc_inv_distinct: "alloc_inv a \<Longrightarrow> distinct (free_bit_freelist a)"
  unfolding alloc_inv_def by blast

lemma alloc_inv_map:
  "alloc_inv a \<Longrightarrow> map (\<lambda>b. unat (bit_bno b)) (free_bit_vector a) = [0..<length (free_bit_vector a)]"
  unfolding alloc_inv_def by blast

lemma alloc_block_inv:
  assumes "alloc_inv a" "alloc_block sb a = Inr (b, a')"
  shows "alloc_inv a'"
proof (cases "free_bit_freelist a")
  case Nil
  with assms(2) have "a' = a" by (simp add: alloc_block_def)
  with assms(1) show ?thesis by simp
next
  case (Cons it rest)
  have it: "it < length (free_bit_vector a)" "is_free (free_bit_vector a ! it)"
    using alloc_inv_mem[OF assms(1), of it] Cons by simp_all
  have v': "free_bit_vector a' = (free_bit_vector a)[it := (free_bit_vector a ! it)\<lparr>is_free := False\<rparr>]"
    and f': "free_bit_freelist a' = rest"
    using assms(2) Cons it by (auto simp: alloc_block_def)
  have d: "distinct rest" "it \<notin> set rest"
    using alloc_inv_distinct[OF assms(1)] Cons by simp_all
  show ?thesis
  proof (rule alloc_invI)
    show "distinct (free_bit_freelist a')" using d(1) f' by simp
  next
    fix i
    show "i \<in> set (free_bit_freelist a') \<longleftrightarrow> i < length (free_bit_vector a') \<and> is_free (free_bit_vector a' ! i)"
    proof (cases "i = it")
      case True
      then show ?thesis using d(2) it(1) by (simp add: v' f')
    next
      case False
      then show ?thesis using alloc_inv_mem[OF assms(1), of i] Cons by (simp add: v' f')
    qed
  next
    show "map (\<lambda>b. unat (bit_bno b)) (free_bit_vector a') = [0..<length (free_bit_vector a')]"
      using map_bit_bno_update[OF alloc_inv_map[OF assms(1)] it(1), of False] by (simp add: v')
  qed
qed

lemma free_block_inv:
  assumes "alloc_inv a" "free_block bno a = Inr a'"
  shows "alloc_inv a'"
proof -
  have i: "unat bno < length (free_bit_vector a)" "\<not> is_free (free_bit_vector a ! unat bno)"
    using assms(2) by (simp_all add: free_block_def split: if_splits)
  have v': "free_bit_vector a' = (free_bit_vector a)[unat bno := (free_bit_vector a ! unat bno)\<lparr>is_free := True\<rparr>]"
    and f': "free_bit_freelist a' = unat bno # free_bit_freelist a"
    using assms(2) i by (auto simp: free_block_def)
  have n: "unat bno \<notin> set (free_bit_freelist a)"
    using alloc_inv_mem[OF assms(1), of "unat bno"] i by simp
  show ?thesis
  proof (rule alloc_invI)
    show "distinct (free_bit_freelist a')" using alloc_inv_distinct[OF assms(1)] n f' by simp
  next
    fix j
    show "j \<in> set (free_bit_freelist a') \<longleftrightarrow> j < length (free_bit_vector a') \<and> is_free (free_bit_vector a' ! j)"
    proof (cases "j = unat bno")
      case True
      then show ?thesis using i(1) by (simp add: v' f')
    next
      case False
      then show ?thesis using alloc_inv_mem[OF assms(1), of j] by (simp add: v' f')
    qed
  next
    show "map (\<lambda>b. unat (bit_bno b)) (free_bit_vector a') = [0..<length (free_bit_vector a')]"
      using map_bit_bno_update[OF alloc_inv_map[OF assms(1)] i(1), of True] by (simp add: v')
  qed
qed

lemma alloc_block_head:
  assumes "alloc_inv a" "free_bit_freelist a = it # rest"
  shows "alloc_block sb a =
           Inr (bit_bno (free_bit_vector a ! it),
                a\<lparr>free_bit_vector :=
                     (free_bit_vector a)[it := (free_bit_vector a ! it)\<lparr>is_free := False\<rparr>],
                  free_bit_freelist := rest\<rparr>)"
proof -
  have "is_free (free_bit_vector a ! it)"
    using alloc_inv_mem[OF assms(1), of it] assms(2) by simp
  then show ?thesis
    by (simp add: alloc_block_def assms(2))
qed

lemma free_block_allocated:
  assumes "unat bno < length (free_bit_vector a)" "\<not> is_free (free_bit_vector a ! unat bno)"
  shows "free_block bno a =
           Inr (a\<lparr>free_bit_vector :=
                     (free_bit_vector a)[unat bno := (free_bit_vector a ! unat bno)\<lparr>is_free := True\<rparr>],
                  free_bit_freelist := unat bno # free_bit_freelist a\<rparr>)"
  using assms by (simp add: free_block_def)

subsection \<open>Claims about the allocator\<close>

text \<open>
  Claim C2. For every call to \<^verbatim>\<open>alloc_block()\<close>: with a non-empty freelist (in a state
  that satisfies the representation invariant) the head free bit is removed from the
  freelist, its flag becomes false, every other bit is left alone and its block number is
  returned; with an empty freelist the superblock's \<open>size\<close> field is returned as the
  out-of-blocks value and the allocator is unchanged.
\<close>

theorem alloc_block_pops_head_or_returns_size:
  assumes "alloc_inv a"
  shows "(free_bit_freelist a = [] \<longrightarrow> alloc_block sb a = Inr (size sb, a)) \<and>
         (\<forall>it rest. free_bit_freelist a = it # rest \<longrightarrow>
            (\<exists>a'. alloc_block sb a = Inr (bit_bno (free_bit_vector a ! it), a') \<and>
                  unat (bit_bno (free_bit_vector a ! it)) = it \<and>
                  free_bit_freelist a' = rest \<and>
                  it \<notin> set (free_bit_freelist a') \<and>
                  length (free_bit_vector a') = length (free_bit_vector a) \<and>
                  \<not> is_free (free_bit_vector a' ! it) \<and>
                  bit_bno (free_bit_vector a' ! it) = bit_bno (free_bit_vector a ! it) \<and>
                  (\<forall>j. j \<noteq> it \<longrightarrow> free_bit_vector a' ! j = free_bit_vector a ! j) \<and>
                  alloc_inv a'))"
proof (intro conjI allI impI)
  assume "free_bit_freelist a = []"
  then show "alloc_block sb a = Inr (size sb, a)" by (simp add: alloc_block_def)
next
  fix it rest
  assume fl: "free_bit_freelist a = it # rest"
  have it: "it < length (free_bit_vector a)"
    using alloc_inv_mem[OF assms, of it] fl by simp
  define a' where "a' = a\<lparr>free_bit_vector :=
                 (free_bit_vector a)[it := (free_bit_vector a ! it)\<lparr>is_free := False\<rparr>],
               free_bit_freelist := rest\<rparr>"
  have r: "alloc_block sb a = Inr (bit_bno (free_bit_vector a ! it), a')"
    unfolding a'_def by (rule alloc_block_head[OF assms fl])
  have c1: "unat (bit_bno (free_bit_vector a ! it)) = it" by (rule alloc_inv_bno[OF assms it])
  have c2: "free_bit_freelist a' = rest" by (simp add: a'_def)
  have c3: "it \<notin> set (free_bit_freelist a')"
    using alloc_inv_distinct[OF assms] fl by (simp add: a'_def)
  have c4: "length (free_bit_vector a') = length (free_bit_vector a)" by (simp add: a'_def)
  have c5: "\<not> is_free (free_bit_vector a' ! it)" using it by (simp add: a'_def)
  have c6: "bit_bno (free_bit_vector a' ! it) = bit_bno (free_bit_vector a ! it)"
    using it by (simp add: a'_def)
  have c7: "\<forall>j. j \<noteq> it \<longrightarrow> free_bit_vector a' ! j = free_bit_vector a ! j" by (simp add: a'_def)
  have c8: "alloc_inv a'" by (rule alloc_block_inv[OF assms r])
  from r c1 c2 c3 c4 c5 c6 c7 c8
  show "\<exists>a'. alloc_block sb a = Inr (bit_bno (free_bit_vector a ! it), a') \<and>
                  unat (bit_bno (free_bit_vector a ! it)) = it \<and>
                  free_bit_freelist a' = rest \<and>
                  it \<notin> set (free_bit_freelist a') \<and>
                  length (free_bit_vector a') = length (free_bit_vector a) \<and>
                  \<not> is_free (free_bit_vector a' ! it) \<and>
                  bit_bno (free_bit_vector a' ! it) = bit_bno (free_bit_vector a ! it) \<and>
                  (\<forall>j. j \<noteq> it \<longrightarrow> free_bit_vector a' ! j = free_bit_vector a ! j) \<and>
                  alloc_inv a'"
    by blast
qed

theorem alloc_block_pops_head_witness:
  "alloc_inv ex_alloc \<and>
   (\<exists>a'. alloc_block ex_sb ex_alloc = Inr (1, a') \<and> free_bit_freelist a' = [2] \<and>
         \<not> is_free (free_bit_vector a' ! 1) \<and> alloc_inv a')"
proof -
  have h: "alloc_inv ex_alloc" by code_simp
  show ?thesis
    using alloc_block_pops_head_or_returns_size[OF h, of ex_sb] h by (auto simp: ex_alloc_def)
qed

text \<open>
  Claim C10. \<^verbatim>\<open>free_block(bno)\<close> panics, and changes nothing, when the bit of \<open>bno\<close> is
  already free. When the bit is allocated, its flag is set, the bit is pushed once on the
  front of the freelist, no other bit changes, and the invariant "a bit is free exactly
  when it is in the freelist, and then exactly once" is preserved.
\<close>

theorem free_block_panics_or_pushes_once:
  assumes "alloc_inv a" "unat bno < length (free_bit_vector a)"
  shows "(is_free (free_bit_vector a ! unat bno) \<longrightarrow>
            free_block bno a = Inl (Panic ''freeing free block'')) \<and>
         (\<not> is_free (free_bit_vector a ! unat bno) \<longrightarrow>
            (\<exists>a'. free_block bno a = Inr a' \<and>
                  free_bit_freelist a' = unat bno # free_bit_freelist a \<and>
                  count_list (free_bit_freelist a) (unat bno) = 0 \<and>
                  count_list (free_bit_freelist a') (unat bno) = 1 \<and>
                  length (free_bit_vector a') = length (free_bit_vector a) \<and>
                  is_free (free_bit_vector a' ! unat bno) \<and>
                  (\<forall>j. j \<noteq> unat bno \<longrightarrow> free_bit_vector a' ! j = free_bit_vector a ! j) \<and>
                  alloc_inv a' \<and>
                  (\<forall>j < length (free_bit_vector a').
                     is_free (free_bit_vector a' ! j) \<longrightarrow> count_list (free_bit_freelist a') j = 1)))"
proof (intro conjI impI)
  assume "is_free (free_bit_vector a ! unat bno)"
  then show "free_block bno a = Inl (Panic ''freeing free block'')"
    using assms(2) by (simp add: free_block_def)
next
  assume nf: "\<not> is_free (free_bit_vector a ! unat bno)"
  define a' where "a' = a\<lparr>free_bit_vector :=
                 (free_bit_vector a)[unat bno := (free_bit_vector a ! unat bno)\<lparr>is_free := True\<rparr>],
               free_bit_freelist := unat bno # free_bit_freelist a\<rparr>"
  have r: "free_block bno a = Inr a'"
    unfolding a'_def by (rule free_block_allocated[OF assms(2) nf])
  have inv': "alloc_inv a'" by (rule free_block_inv[OF assms(1) r])
  have n: "unat bno \<notin> set (free_bit_freelist a)"
    using alloc_inv_mem[OF assms(1), of "unat bno"] nf by simp
  have c1: "free_bit_freelist a' = unat bno # free_bit_freelist a" by (simp add: a'_def)
  have c2: "count_list (free_bit_freelist a) (unat bno) = 0" using n by simp
  have c3: "count_list (free_bit_freelist a') (unat bno) = 1" using c1 c2 by simp
  have c4: "length (free_bit_vector a') = length (free_bit_vector a)" by (simp add: a'_def)
  have c5: "is_free (free_bit_vector a' ! unat bno)" using assms(2) by (simp add: a'_def)
  have c6: "\<forall>j. j \<noteq> unat bno \<longrightarrow> free_bit_vector a' ! j = free_bit_vector a ! j"
    by (simp add: a'_def)
  have c7: "\<forall>j < length (free_bit_vector a'). is_free (free_bit_vector a' ! j) \<longrightarrow>
                count_list (free_bit_freelist a') j = 1"
  proof (intro allI impI)
    fix j assume "j < length (free_bit_vector a')" "is_free (free_bit_vector a' ! j)"
    then have "j \<in> set (free_bit_freelist a')" using alloc_inv_mem[OF inv', of j] by blast
    moreover have "distinct (free_bit_freelist a')" by (rule alloc_inv_distinct[OF inv'])
    ultimately show "count_list (free_bit_freelist a') j = 1"
      by (rule count_list_distinct_mem[rotated])
  qed
  from r c1 c2 c3 c4 c5 c6 inv' c7
  show "\<exists>a'. free_block bno a = Inr a' \<and>
                  free_bit_freelist a' = unat bno # free_bit_freelist a \<and>
                  count_list (free_bit_freelist a) (unat bno) = 0 \<and>
                  count_list (free_bit_freelist a') (unat bno) = 1 \<and>
                  length (free_bit_vector a') = length (free_bit_vector a) \<and>
                  is_free (free_bit_vector a' ! unat bno) \<and>
                  (\<forall>j. j \<noteq> unat bno \<longrightarrow> free_bit_vector a' ! j = free_bit_vector a ! j) \<and>
                  alloc_inv a' \<and>
                  (\<forall>j < length (free_bit_vector a').
                     is_free (free_bit_vector a' ! j) \<longrightarrow> count_list (free_bit_freelist a') j = 1)"
    by blast
qed

theorem free_block_pushes_once_witness:
  "alloc_inv ex_alloc \<and> unat (0 :: u32) < length (free_bit_vector ex_alloc) \<and>
   (\<exists>a'. free_block 0 ex_alloc = Inr a' \<and> free_bit_freelist a' = [0, 1, 2] \<and>
         is_free (free_bit_vector a' ! 0) \<and> alloc_inv a')"
proof -
  have h: "alloc_inv ex_alloc" by code_simp
  have l: "unat (0 :: u32) < length (free_bit_vector ex_alloc)" by (simp add: ex_alloc_def)
  show ?thesis
    using free_block_panics_or_pushes_once[OF h l] h l by (auto simp: ex_alloc_def)
qed

subsection \<open>Deferred inode reclaim\<close>

lemma defer_inode_reclaim_sb_root:
  "defer_inode_reclaim N stack i s = Inr s' \<Longrightarrow> sb_root s' = sb_root s"
  by (auto simp: defer_inode_reclaim_def split: sum.splits if_splits)

text \<open>
  Claim C8. The claim asks that requests accumulate in the superblock's
  \<open>reclaim_inodes\<close> array until \<open>NRECLAIM_INODES\<close> of them are stored, and that the next
  one is dropped with a warning. The function reads the count and the list from
  \<^verbatim>\<open>sb_root\<close>, which it never updates, and writes its local copy to block 1. With
  \<open>NRECLAIM_INODES = 2\<close> and an empty list at boot, a request for inode 5 followed by one
  for inode 7 leaves block 1 with one entry, 7: the request for 5 is lost, the count is
  still 1, and a third request is stored as well, without any warning.
\<close>

theorem defer_inode_reclaim_overwrites_earlier_request:
  "defer_inode_reclaim 2 ex_sb 5 ex_sb_state =
     Inr (ex_sb_state\<lparr>block1 := ex_sb\<lparr>reclaim_inodes := [5, 0], num_reclaim_inodes := 1\<rparr>\<rparr>) \<and>
   defer_twice =
     Inr (ex_sb_state\<lparr>block1 := ex_sb\<lparr>reclaim_inodes := [7, 0], num_reclaim_inodes := 1\<rparr>\<rparr>) \<and>
   defer_thrice =
     Inr (ex_sb_state\<lparr>block1 := ex_sb\<lparr>reclaim_inodes := [9, 0], num_reclaim_inodes := 1\<rparr>\<rparr>)"
  by (simp add: defer_thrice_def defer_twice_def defer_inode_reclaim_def get_superblock_def
      ex_sb_state_def ex_sb_def)

subsection \<open>Journal recovery\<close>










subsection \<open>The journal writer\<close>

lemma unat_word_of_nat_small:
  "x < 2 ^ 64 \<Longrightarrow> unat (word_of_nat x :: u64) = x"
  by (rule of_nat_inverse[OF refl]) simp

lemma fits_in_journal_iff:
  assumes "unat off + (hdr_size P + BSIZE P) * (unat n + 1) < 2 ^ 64"
    and "PHYS_JOURNAL_SIZE P < 2 ^ 64"
  shows "fits_in_journal P off n \<longleftrightarrow>
           unat off + (hdr_size P + BSIZE P) * (unat n + 1) \<le> PHYS_JOURNAL_SIZE P"
proof -
  define A where "A = unat off + (hdr_size P + BSIZE P) * (unat n + 1)"
  have e: "(ucast off :: u64) + (word_of_nat (hdr_size P) + word_of_nat (BSIZE P)) * (1 + n) = word_of_nat A"
    unfolding A_def by (simp add: algebra_simps)
  have a: "unat (word_of_nat A :: u64) = A"
    using assms(1) unfolding A_def[symmetric] by (rule unat_word_of_nat_small)
  have p: "unat (word_of_nat (PHYS_JOURNAL_SIZE P) :: u64) = PHYS_JOURNAL_SIZE P"
    using assms(2) by (rule unat_word_of_nat_small)
  have "fits_in_journal P off n \<longleftrightarrow> \<not> (word_of_nat (PHYS_JOURNAL_SIZE P) :: u64) < word_of_nat A"
    unfolding fits_in_journal_def Let_def e by simp
  also have "\<dots> \<longleftrightarrow> A \<le> PHYS_JOURNAL_SIZE P"
    unfolding word_less_nat_alt a p by auto
  finally show ?thesis unfolding A_def .
qed

lemma fits_in_journal_length:
  assumes "unat off + (hdr_size P + BSIZE P) * (len + 1) \<le> PHYS_JOURNAL_SIZE P"
    and "PHYS_JOURNAL_SIZE P < 2 ^ 64" and "0 < hdr_size P + BSIZE P"
  shows "fits_in_journal P off (word_of_nat len)"
proof -
  have "1 * (len + 1) \<le> (hdr_size P + BSIZE P) * (len + 1)"
    using assms(3) by (intro mult_le_mono1) linarith
  then have l: "len < 2 ^ 64" using assms(1,2) by simp
  have u: "unat (word_of_nat len :: u64) = len" using l by (rule unat_word_of_nat_small)
  show ?thesis
    using fits_in_journal_iff[of off P "word_of_nat len"] assms(1,2) unfolding u by simp
qed

lemma flush_retry_fits:
  assumes "fits_in_journal P (current_offset s) (word_of_nat (length (blocks t)))"
  shows "flush_retry P jt t s =
           Some (s\<lparr>events := events s @ [PrepareForCommit (trans_timestamp t)],
                   prune_trans := prune_trans s @ blocks t,
                   processed_trans_vec := processed_trans_vec s @ [t]\<rparr>)"
  using assms by (subst flush_retry.simps) (simp add: Let_def)

lemma retry_cycles_append: "retry_cycles (xs @ ys) = retry_cycles xs + retry_cycles ys"
  by (simp add: retry_cycles_def)

lemma written_records_append: "written_records (xs @ ys) = written_records xs @ written_records ys"
  by (induction xs rule: written_records.induct) simp_all

lemma commit_records_append: "commit_records jt (xs @ ys) = commit_records jt xs @ commit_records jt ys"
  by (simp add: commit_records_def written_records_append)

lemma post_process_events_quiet:
  "retry_cycles (post_process_events ts) = 0"
  "count_list (post_process_events ts) ResetJournal = 0"
  "written_records (post_process_events ts) = []"
  by (induction ts) (simp_all add: retry_cycles_def)

text \<open>The loop over a batch that fits: no cycle is taken and the offset stays where it is.\<close>

lemma flush_loop_fits:
  assumes "PHYS_JOURNAL_SIZE P < 2 ^ 64" "0 < hdr_size P + BSIZE P"
  shows "batch_fits P bu (bufcache s) (current_offset s) log \<Longrightarrow>
         \<exists>s'. flush_loop P jt bu log s = Some (Inr s') \<and>
              current_offset s' = current_offset s \<and>
              trans s' = trans s \<and>
              prolog_timestamp s' = prolog_timestamp s \<and>
              transaction_log s' = transaction_log s \<and>
              retry_cycles (events s') = retry_cycles (events s) \<and>
              count_list (events s') ResetJournal = count_list (events s) ResetJournal \<and>
              written_records (events s') = written_records (events s) \<and>
              length (processed_trans_vec s') = length (processed_trans_vec s) + length log"
proof (induction log arbitrary: s)
  case Nil
  then show ?case by simp
next
  case (Cons it rest)
  from Cons.prems obtain bc t where
    pre: "pre_process_transaction bu (bufcache s) it = Inr (bc, t)"
    and fit: "unat (current_offset s) + (hdr_size P + BSIZE P) * (length (blocks t) + 1) \<le> PHYS_JOURNAL_SIZE P"
    and rest: "batch_fits P bu bc (current_offset s) rest"
    by (auto split: sum.splits)
  define s0 where "s0 = s\<lparr>cur_timestamp := trans_timestamp it, bufcache := bc\<rparr>"
  define s1 where "s1 = s0\<lparr>events := events s0 @ [PrepareForCommit (trans_timestamp t)],
                   prune_trans := prune_trans s0 @ blocks t,
                   processed_trans_vec := processed_trans_vec s0 @ [t]\<rparr>"
  have f: "fits_in_journal P (current_offset s0) (word_of_nat (length (blocks t)))"
    using fits_in_journal_length[OF fit assms] by (simp add: s0_def)
  have r: "flush_retry P jt t s0 = Some s1"
    unfolding s1_def by (rule flush_retry_fits[OF f])
  have step: "flush_loop P jt bu (it # rest) s = flush_loop P jt bu rest s1"
    using pre r by (simp add: s0_def)
  have "batch_fits P bu (bufcache s1) (current_offset s1) rest"
    using rest by (simp add: s1_def s0_def)
  from Cons.IH[OF this] obtain s' where
    s': "flush_loop P jt bu rest s1 = Some (Inr s')"
      "current_offset s' = current_offset s1"
      "trans s' = trans s1"
      "prolog_timestamp s' = prolog_timestamp s1"
      "transaction_log s' = transaction_log s1"
      "retry_cycles (events s') = retry_cycles (events s1)"
      "count_list (events s') ResetJournal = count_list (events s1) ResetJournal"
      "written_records (events s') = written_records (events s1)"
      "length (processed_trans_vec s') = length (processed_trans_vec s1) + length rest"
    by blast
  have e1: "retry_cycles (events s1) = retry_cycles (events s)"
    "count_list (events s1) ResetJournal = count_list (events s) ResetJournal"
    "written_records (events s1) = written_records (events s)"
    by (simp_all add: s1_def s0_def retry_cycles_def written_records_append)
  show ?case
    unfolding step using s' e1 by (simp add: s1_def s0_def)
qed

lemma write_journal_hdrblock_quiet:
  "events (write_journal_hdrblock P h d s) = events s"
  "transaction_log (write_journal_hdrblock P h d s) = transaction_log s"
  "bufcache (write_journal_hdrblock P h d s) = bufcache s"
  "processed_trans_vec (write_journal_hdrblock P h d s) = processed_trans_vec s"
  "prolog_timestamp (write_journal_hdrblock P h d s) = prolog_timestamp s"
  by (simp_all add: write_journal_hdrblock_def)

lemma write_journal_transaction_blocks_quiet:
  "events (write_journal_transaction_blocks P jt vec ts s) = events s \<and>
   processed_trans_vec (write_journal_transaction_blocks P jt vec ts s) = processed_trans_vec s \<and>
   prolog_timestamp (write_journal_transaction_blocks P jt vec ts s) = prolog_timestamp s \<and>
   (\<forall>r \<in> set (trans (write_journal_transaction_blocks P jt vec ts s)). 
       r \<in> set (trans s) \<or> block_type (fst (snd r)) = jrnl_data jt)"
proof (induction vec arbitrary: s)
  case Nil
  then show ?case by simp
next
  case (Cons b vec)
  obtain bno d where b: "b = (bno, d)" by (cases b)
  show ?case
    unfolding b using Cons.IH[of "write_journal_hdrblock P \<lparr>timestamp = ts, blocknum = bno, block_type = jrnl_data jt\<rparr> d s"]
    by (auto simp: write_journal_hdrblock_def)
qed

lemma commit_filter_data:
  assumes "jrnl_data jt \<noteq> jrnl_commit jt"
    and "\<forall>r \<in> set recs. r \<in> set base \<or> block_type (fst (snd r)) = jrnl_data jt"
    and "\<forall>r \<in> set base. block_type (fst (snd r)) \<noteq> jrnl_commit jt"
  shows "filter (\<lambda>(off, hdr, d). block_type hdr = jrnl_commit jt) recs = []"
proof -
  have "\<not> (case r of (off, hdr, d) \<Rightarrow> block_type hdr = jrnl_commit jt)" if "r \<in> set recs" for r
  proof -
    obtain off hdr d where r: "r = (off, hdr, d)" by (cases r)
    from assms(2) that have "r \<in> set base \<or> block_type (fst (snd r)) = jrnl_data jt" by blast
    then have "block_type hdr \<noteq> jrnl_commit jt"
      using assms(1,3) r by auto
    then show ?thesis by (simp add: r)
  qed
  then show ?thesis by (simp add: filter_empty_conv)
qed


text \<open>
  Claim C7. \<^verbatim>\<open>fits_in_journal(n)\<close> is true exactly when the offset plus
  \<open>(sizeof(journal_block_header) + BSIZE) * (n + 1)\<close> is at most \<open>PHYS_JOURNAL_SIZE\<close>
  (the sum is below \<open>2^64\<close>, so the \<^verbatim>\<open>u64\<close> arithmetic of the code does not wrap). So a
  batch whose sub-transactions meet the bound, with equality allowed, goes through
  \<^verbatim>\<open>flush_journal_locked\<close> without a commit-apply-reset cycle inside the loop: the call
  returns, no \<open>FinishAfterCommit\<close> is issued, one commit record is written and the journal
  is reset once, at the end.
\<close>

theorem fits_in_journal_exact_fill_commits_without_retry:
  assumes "PHYS_JOURNAL_SIZE P < 2 ^ 64" "0 < hdr_size P + BSIZE P" "jrnl_types_ok jt"
  shows "(\<forall>off n. unat off + (hdr_size P + BSIZE P) * (unat n + 1) < 2 ^ 64 \<longrightarrow>
            (fits_in_journal P off n \<longleftrightarrow>
               unat off + (hdr_size P + BSIZE P) * (unat n + 1) \<le> PHYS_JOURNAL_SIZE P)) \<and>
         (transaction_log s \<noteq> [] \<and>
          batch_fits P bu (bufcache s)
            (current_offset s + word_of_nat (hdr_size P) + word_of_nat (BSIZE P)) (transaction_log s) \<longrightarrow>
            (\<exists>s'. flush_journal_locked P jt bu s = Some (Inr s') \<and>
                  retry_cycles (events s') = retry_cycles (events s) \<and>
                  count_list (events s') ResetJournal = count_list (events s) ResetJournal + 1 \<and>
                  length (commit_records jt (events s')) = length (commit_records jt (events s)) + 1 \<and>
                  transaction_log s' = [] \<and> current_offset s' = 0))"
proof (intro conjI allI impI)
  fix off :: u32 and n :: u64
  assume "unat off + (hdr_size P + BSIZE P) * (unat n + 1) < 2 ^ 64"
  then show "fits_in_journal P off n \<longleftrightarrow>
               unat off + (hdr_size P + BSIZE P) * (unat n + 1) \<le> PHYS_JOURNAL_SIZE P"
    using assms(1) by (rule fits_in_journal_iff)
next
  assume a: "transaction_log s \<noteq> [] \<and>
          batch_fits P bu (bufcache s)
            (current_offset s + word_of_nat (hdr_size P) + word_of_nat (BSIZE P)) (transaction_log s)"
  then obtain first others where log: "transaction_log s = first # others"
    by (cases "transaction_log s") auto
  define zeros :: payload where "zeros = replicate (BSIZE P) 0"
  define start_rec where
    "start_rec = (current_offset s, \<lparr>timestamp = trans_timestamp first, blocknum = 0, block_type = jrnl_start jt\<rparr>, zeros)"
  define s0 where "s0 = s\<lparr>cur_timestamp := 0, prolog_timestamp := trans_timestamp first,
                       trans := [], prune_trans := [], processed_trans_vec := []\<rparr>"
  define s1 where "s1 = write_journal_trans_prolog P jt (prolog_timestamp s0) s0"
  have s1: "s1 = s0\<lparr>trans := [start_rec],
                   current_offset := current_offset s + word_of_nat (hdr_size P) + word_of_nat (BSIZE P)\<rparr>"
    by (simp add: s1_def s0_def write_journal_trans_prolog_def write_journal_header_def
        write_journal_hdrblock_def start_rec_def zeros_def)
  have "batch_fits P bu (bufcache s1) (current_offset s1) (transaction_log s)"
    using a by (simp add: s1 s0_def)
  from flush_loop_fits[OF assms(1,2) this, of jt] obtain s2 where
    s2: "flush_loop P jt bu (transaction_log s) s1 = Some (Inr s2)"
      "trans s2 = trans s1"
      "prolog_timestamp s2 = prolog_timestamp s1"
      "retry_cycles (events s2) = retry_cycles (events s1)"
      "count_list (events s2) ResetJournal = count_list (events s1) ResetJournal"
      "written_records (events s2) = written_records (events s1)"
      "length (processed_trans_vec s2) = length (processed_trans_vec s1) + length (transaction_log s)"
    by blast
  have ne: "processed_trans_vec s2 \<noteq> []" using s2(7) log by auto
  define s3 where "s3 = write_journal_transaction_blocks P jt (deduplicate_blocks (prune_trans s2))
                                 (cur_timestamp s2) (s2\<lparr>prune_trans := deduplicate_blocks (prune_trans s2)\<rparr>)"
  have s3: "events s3 = events s2" "prolog_timestamp s3 = prolog_timestamp s2"
    "\<forall>r \<in> set (trans s3). r \<in> set [start_rec] \<or> block_type (fst (snd r)) = jrnl_data jt"
    using write_journal_transaction_blocks_quiet[of P jt "deduplicate_blocks (prune_trans s2)"
        "cur_timestamp s2" "s2\<lparr>prune_trans := deduplicate_blocks (prune_trans s2)\<rparr>"]
    by (simp_all add: s3_def s2(2) s1)
  define s4 where "s4 = write_journal_trans_epilog P jt (prolog_timestamp s3) s3"
  define commit_rec where
    "commit_rec = (current_offset s3, \<lparr>timestamp = prolog_timestamp s3, blocknum = 0, block_type = jrnl_commit jt\<rparr>, zeros)"
  have s4: "events s4 = events s3 @ [WriteToDisk (trans s3), WriteToDisk [commit_rec]]"
    using assms(3)
    by (simp add: s4_def write_journal_trans_epilog_def write_journal_header_def
        write_journal_hdrblock_def Let_def commit_rec_def zeros_def jrnl_types_ok_def)
  define s5 where "s5 = s4\<lparr>events := events s4 @ post_process_events (processed_trans_vec s4)
                                                     @ [ApplyTransOnDisk (prune_trans s4), Ideflush],
                               processed_trans_vec := []\<rparr>"
  define s6 where "s6 = reset_journal_offset s5"
  define s' where "s' = s6\<lparr>prune_trans := [], transaction_log := []\<rparr>"
  have res: "flush_journal_locked P jt bu s = Some (Inr s')"
    using s2(1) ne
    unfolding flush_journal_locked_def log list.case s'_def s6_def s5_def s4_def s3_def s1_def s0_def Let_def
    by (simp del: flush_loop.simps)
  have nocommit: "filter (\<lambda>(off, hdr, d). block_type hdr = jrnl_commit jt) (trans s3) = []"
  proof (rule commit_filter_data[OF _ s3(3)])
    show "jrnl_data jt \<noteq> jrnl_commit jt" using assms(3) by (simp add: jrnl_types_ok_def)
    show "\<forall>r\<in>set [start_rec]. block_type (fst (snd r)) \<noteq> jrnl_commit jt"
      using assms(3) by (simp add: start_rec_def jrnl_types_ok_def)
  qed
  have evs: "events s' = events s2 @ [WriteToDisk (trans s3), WriteToDisk [commit_rec]]
                 @ post_process_events (processed_trans_vec s4) @ [ApplyTransOnDisk (prune_trans s4), Ideflush]
                 @ [ResetJournal]"
    by (simp add: s'_def s6_def reset_journal_offset_def s5_def s4 s3(1))
  have e1: "events s1 = events s" by (simp add: s1 s0_def)
  have c1: "retry_cycles (events s') = retry_cycles (events s)"
    unfolding evs retry_cycles_append post_process_events_quiet
    using s2(4) e1 by (simp add: retry_cycles_def)
  have c2: "count_list (events s') ResetJournal = count_list (events s) ResetJournal + 1"
    unfolding evs using s2(5) e1 by (simp add: post_process_events_quiet)
  have c3: "length (commit_records jt (events s')) = length (commit_records jt (events s)) + 1"
    unfolding evs commit_records_def written_records_append
    using s2(6) e1 nocommit by (simp add: post_process_events_quiet commit_rec_def)
  have c4: "transaction_log s' = []" by (simp add: s'_def)
  have c5: "current_offset s' = 0" by (simp add: s'_def s6_def reset_journal_offset_def)
  from res c1 c2 c3 c4 c5
  show "\<exists>s'. flush_journal_locked P jt bu s = Some (Inr s') \<and>
                  retry_cycles (events s') = retry_cycles (events s) \<and>
                  count_list (events s') ResetJournal = count_list (events s) ResetJournal + 1 \<and>
                  length (commit_records jt (events s')) = length (commit_records jt (events s)) + 1 \<and>
                  transaction_log s' = [] \<and> current_offset s' = 0"
    by blast
qed

theorem fits_in_journal_exact_fill_witness:
  "PHYS_JOURNAL_SIZE ex_jparams < 2 ^ 64 \<and> 0 < hdr_size ex_jparams + BSIZE ex_jparams \<and>
   jrnl_types_ok ex_jt \<and>
   unat (4128 :: u32) + (hdr_size ex_jparams + BSIZE ex_jparams) * (unat (1 :: u64) + 1) =
     PHYS_JOURNAL_SIZE ex_jparams \<and>
   fits_in_journal ex_jparams 4128 1 \<and>
   \<not> fits_in_journal ex_jparams 4128 2 \<and>
   transaction_log ex_flush \<noteq> [] \<and>
   batch_fits ex_jparams no_bitmap_update (bufcache ex_flush)
     (current_offset ex_flush + word_of_nat (hdr_size ex_jparams) + word_of_nat (BSIZE ex_jparams))
     (transaction_log ex_flush) \<and>
   (\<exists>s'. flush_journal_locked ex_jparams ex_jt no_bitmap_update ex_flush = Some (Inr s') \<and>
         retry_cycles (events s') = 0 \<and>
         count_list (events s') ResetJournal = 1 \<and>
         length (commit_records ex_jt (events s')) = 1 \<and>
         transaction_log s' = [] \<and> current_offset s' = 0)"
proof -
  have h1: "PHYS_JOURNAL_SIZE ex_jparams < 2 ^ 64" by (simp add: ex_jparams_def)
  have h2: "0 < hdr_size ex_jparams + BSIZE ex_jparams" by (simp add: ex_jparams_def)
  have h3: "jrnl_types_ok ex_jt" by (simp add: jrnl_types_ok_def ex_jt_def)
  have h4: "unat (4128 :: u32) + (hdr_size ex_jparams + BSIZE ex_jparams) * (unat (1 :: u64) + 1) =
     PHYS_JOURNAL_SIZE ex_jparams" by (simp add: ex_jparams_def)
  have h5: "unat (4128 :: u32) + (hdr_size ex_jparams + BSIZE ex_jparams) * (unat (2 :: u64) + 1) < 2 ^ 64"
    by (simp add: ex_jparams_def)
  have h6: "transaction_log ex_flush \<noteq> []" by (simp add: ex_flush_def)
  have h7: "batch_fits ex_jparams no_bitmap_update (bufcache ex_flush)
     (current_offset ex_flush + word_of_nat (hdr_size ex_jparams) + word_of_nat (BSIZE ex_jparams))
     (transaction_log ex_flush)"
    by (simp add: ex_flush_def ex_jparams_def ex_trans_def pre_process_transaction_def)
  note t = fits_in_journal_exact_fill_commits_without_retry[OF h1 h2 h3, of ex_flush no_bitmap_update]
  have a: "fits_in_journal ex_jparams 4128 1"
    using t h4 h1 by (simp add: ex_jparams_def)
  have b: "\<not> fits_in_journal ex_jparams 4128 2"
    using t h5 by (simp add: ex_jparams_def)
  have c: "\<exists>s'. flush_journal_locked ex_jparams ex_jt no_bitmap_update ex_flush = Some (Inr s') \<and>
         retry_cycles (events s') = 0 \<and>
         count_list (events s') ResetJournal = 1 \<and>
         length (commit_records ex_jt (events s')) = 1 \<and>
         transaction_log s' = [] \<and> current_offset s' = 0"
    using t h6 h7 by (simp add: ex_flush_def retry_cycles_def commit_records_def)
  from h1 h2 h3 h4 a b h6 h7 c show ?thesis by blast
qed

subsection \<open>Delayed frees\<close>

lemma bfree_delayed_eq:
  "bfree_delayed b s =
     Inr (s\<lparr>ts_trans := (if dev (ts_ip s) = 1
                            then map_option (\<lambda>t. t\<lparr>free_block_list := free_block_list t @ [b]\<rparr>) (ts_trans s)
                            else ts_trans s)\<rparr>)"
  by (simp add: bfree_delayed_def bfree_def Let_def ucast_up_ucast_id is_up)

lemma keeps_alloc_Inr: "keeps_alloc (Inr s') a \<longleftrightarrow> ts_alloc s' = a"
  by (simp add: keeps_alloc_def)

lemma keeps_allocD: "keeps_alloc r a \<Longrightarrow> \<exists>s'. r = Inr s' \<and> ts_alloc s' = a"
  by (cases r) (simp_all add: keeps_alloc_def)

lemma keeps_alloc_eq: "keeps_alloc r (ts_alloc x) \<Longrightarrow> ts_alloc x = a \<Longrightarrow> keeps_alloc r a"
  by simp

lemma add_to_transaction_alloc: "ts_alloc (add_to_transaction b s) = ts_alloc s"
  by (simp add: add_to_transaction_def)

lemma itrunc_direct_alloc: "keeps_alloc (itrunc_direct is s) (ts_alloc s)"
proof (induction "is" arbitrary: s)
  case Nil
  then show ?case by (simp add: keeps_alloc_Inr)
next
  case (Cons i "is")
  show ?case
    by (auto simp: bfree_delayed_eq intro!: keeps_alloc_eq[OF Cons.IH])
qed

lemma itrunc_entries_alloc: "keeps_alloc (itrunc_entries blk is s) (ts_alloc s)"
proof (induction "is" arbitrary: s)
  case Nil
  then show ?case by (simp add: keeps_alloc_Inr)
next
  case (Cons i "is")
  show ?case
    by (auto simp: bfree_delayed_eq intro!: keeps_alloc_eq[OF Cons.IH])
qed

lemma itrunc_double_alloc: "keeps_alloc (itrunc_double P blk1 bno is s) (ts_alloc s)"
proof (induction "is" arbitrary: s)
  case Nil
  then show ?case by (simp add: keeps_alloc_Inr)
next
  case (Cons i "is")
  show ?case
  proof (cases "get_u32 (ts_bufs s blk1) i = 0")
    case True
    then show ?thesis using Cons.IH[of s] by simp
  next
    case False
    define start where "start = (if i = bno div NINDIRECT P then bno mod NINDIRECT P else 0)"
    obtain s1 where s1: "itrunc_entries (get_u32 (ts_bufs s blk1) i) [start..<NINDIRECT P] s = Inr s1"
      "ts_alloc s1 = ts_alloc s"
      using keeps_allocD[OF itrunc_entries_alloc] by blast
    show ?thesis
      using False s1
      by (auto simp: Let_def start_def[symmetric] bfree_delayed_eq add_to_transaction_alloc
          intro!: keeps_alloc_eq[OF Cons.IH])
  qed
qed

lemma itrunc_indirect_alloc: "keeps_alloc (itrunc_indirect P off s) (ts_alloc s)"
proof (cases "addrs (ts_ip s) ! NDIRECT P \<noteq> 0")
  case False
  then show ?thesis by (simp add: itrunc_indirect_def keeps_alloc_Inr)
next
  case True
  define start where "start = (if off \<ge> NDIRECT P * BSIZE P then BLOCKROUNDUP P (off - NDIRECT P * BSIZE P) else 0)"
  define s1 where "s1 = (case iaddrs (ts_ip s) of
                     Some ia \<Rightarrow> s\<lparr>ts_bufs := (ts_bufs s)(addrs (ts_ip s) ! NDIRECT P :=
                                       store_iaddrs ia (ts_bufs s (addrs (ts_ip s) ! NDIRECT P)))\<rparr>
                   | None \<Rightarrow> s)"
  have a1: "ts_alloc s1 = ts_alloc s" by (simp add: s1_def split: option.splits)
  obtain s2 where s2: "itrunc_entries (addrs (ts_ip s) ! NDIRECT P) [start..<NINDIRECT P] s1 = Inr s2"
    "ts_alloc s2 = ts_alloc s1"
    using keeps_allocD[OF itrunc_entries_alloc] by blast
  show ?thesis
    using True s2 a1
    unfolding itrunc_indirect_def Let_def start_def[symmetric] s1_def[symmetric]
    by (auto simp: bfree_delayed_eq add_to_transaction_alloc keeps_alloc_Inr)
qed

lemma itrunc_dindirect_alloc: "keeps_alloc (itrunc_dindirect P off s) (ts_alloc s)"
proof (cases "addrs (ts_ip s) ! (NDIRECT P + 1) \<noteq> 0")
  case False
  then show ?thesis by (simp add: itrunc_dindirect_def keeps_alloc_Inr)
next
  case True
  define bno where "bno = (if off \<ge> (NDIRECT P + NINDIRECT P) * BSIZE P
                    then BLOCKROUNDUP P (off - (NDIRECT P + NINDIRECT P) * BSIZE P) else 0)"
  obtain s1 where s1: "itrunc_double P (addrs (ts_ip s) ! (NDIRECT P + 1)) bno [bno div NINDIRECT P..<NINDIRECT P] s = Inr s1"
    "ts_alloc s1 = ts_alloc s"
    using keeps_allocD[OF itrunc_double_alloc] by blast
  show ?thesis
    using True s1
    unfolding itrunc_dindirect_def Let_def bno_def[symmetric]
    by (auto simp: bfree_delayed_eq add_to_transaction_alloc keeps_alloc_Inr)
qed

lemma itrunc_alloc: "keeps_alloc (itrunc P offset s) (ts_alloc s)"
proof (cases "isize (ts_ip s) \<le> offset")
  case True
  then show ?thesis by (simp add: itrunc_def keeps_alloc_Inr)
next
  case False
  obtain s1 where s1: "itrunc_direct [BLOCKROUNDUP P (unat offset)..<NDIRECT P] s = Inr s1" "ts_alloc s1 = ts_alloc s"
    using keeps_allocD[OF itrunc_direct_alloc] by blast
  obtain s2 where s2: "itrunc_indirect P (unat offset) s1 = Inr s2" "ts_alloc s2 = ts_alloc s1"
    using keeps_allocD[OF itrunc_indirect_alloc] by blast
  obtain s3 where s3: "itrunc_dindirect P (unat offset) s2 = Inr s3" "ts_alloc s3 = ts_alloc s2"
    using keeps_allocD[OF itrunc_dindirect_alloc] by blast
  have "itrunc P offset s = Inr (s3\<lparr>ts_ip := (ts_ip s3)\<lparr>isize := offset\<rparr>\<rparr>)"
    using False s1(1) s2(1) s3(1) by (simp add: itrunc_def)
  then show ?thesis using s1(2) s2(2) s3(2) by (simp add: keeps_alloc_Inr)
qed

lemma free_block_Inr:
  assumes "free_block b a = Inr a'"
  shows "free_bit_freelist a' = unat b # free_bit_freelist a"
    and "length (free_bit_vector a') = length (free_bit_vector a)"
    and "unat b < length (free_bit_vector a)"
    and "is_free (free_bit_vector a' ! unat b)"
    and "\<And>j. j < length (free_bit_vector a) \<Longrightarrow> is_free (free_bit_vector a ! j) \<Longrightarrow> is_free (free_bit_vector a' ! j)"
  using assms by (auto simp: free_block_def nth_list_update split: if_splits)

lemma free_blocks_Inr:
  "free_blocks fs a = Inr a' \<Longrightarrow>
     free_bit_freelist a' = rev (map unat fs) @ free_bit_freelist a \<and>
     length (free_bit_vector a') = length (free_bit_vector a) \<and>
     (\<forall>j < length (free_bit_vector a). is_free (free_bit_vector a ! j) \<longrightarrow> is_free (free_bit_vector a' ! j)) \<and>
     (\<forall>b \<in> set fs. unat b < length (free_bit_vector a') \<and> is_free (free_bit_vector a' ! unat b))"
proof (induction fs arbitrary: a)
  case Nil
  then show ?case by simp
next
  case (Cons f fs)
  from Cons.prems obtain a1 where a1: "free_block f a = Inr a1" "free_blocks fs a1 = Inr a'"
    by (auto split: sum.splits)
  note fb = free_block_Inr[OF a1(1)]
  note ih = Cons.IH[OF a1(2)]
  have 1: "free_bit_freelist a' = rev (map unat (f # fs)) @ free_bit_freelist a"
    using ih fb(1) by simp
  have 2: "length (free_bit_vector a') = length (free_bit_vector a)"
    using ih fb(2) by simp
  have 3: "\<forall>j < length (free_bit_vector a). is_free (free_bit_vector a ! j) \<longrightarrow> is_free (free_bit_vector a' ! j)"
    using ih fb(2) fb(5) by auto
  have 4: "unat f < length (free_bit_vector a') \<and> is_free (free_bit_vector a' ! unat f)"
    using ih fb(2,3,4) by auto
  show ?case using 1 2 3 4 ih by auto
qed

lemma free_block_other:
  assumes "free_block b a = Inr a'" "j \<noteq> unat b"
  shows "free_bit_vector a' ! j = free_bit_vector a ! j"
  using assms by (auto simp: free_block_def split: if_splits)

lemma free_blocks_succeeds:
  "alloc_inv a \<Longrightarrow> distinct fs \<Longrightarrow>
   (\<forall>b \<in> set fs. unat b < length (free_bit_vector a) \<and> \<not> is_free (free_bit_vector a ! unat b)) \<Longrightarrow>
   \<exists>a'. free_blocks fs a = Inr a' \<and> alloc_inv a'"
proof (induction fs arbitrary: a)
  case Nil
  then show ?case by simp
next
  case (Cons f fs)
  have f: "unat f < length (free_bit_vector a)" "\<not> is_free (free_bit_vector a ! unat f)"
    using Cons.prems(3) by simp_all
  obtain a1 where a1: "free_block f a = Inr a1"
    using free_block_allocated[OF f] by blast
  have inv1: "alloc_inv a1" by (rule free_block_inv[OF Cons.prems(1) a1])
  have d: "distinct fs" "f \<notin> set fs" using Cons.prems(2) by simp_all
  have rest: "\<forall>b \<in> set fs. unat b < length (free_bit_vector a1) \<and> \<not> is_free (free_bit_vector a1 ! unat b)"
  proof
    fix b assume b: "b \<in> set fs"
    then have "b \<noteq> f" using d(2) by auto
    then have ne: "unat b \<noteq> unat f" by (simp add: word_unat_eq_iff)
    have "unat b < length (free_bit_vector a)" "\<not> is_free (free_bit_vector a ! unat b)"
      using Cons.prems(3) b by simp_all
    then show "unat b < length (free_bit_vector a1) \<and> \<not> is_free (free_bit_vector a1 ! unat b)"
      using free_block_Inr(2)[OF a1] free_block_other[OF a1 ne] by simp
  qed
  from Cons.IH[OF inv1 d(1) rest] show ?case using a1 by simp
qed

text \<open>
  Claim C3. A delayed \<^verbatim>\<open>bfree\<close> leaves the in-memory allocator (free-bit vector and
  freelist) as it is and only records the block in the transaction's
  \<^verbatim>\<open>free_block_list\<close>; \<^verbatim>\<open>itrunc\<close>, whose frees are all delayed, returns with the allocator
  unchanged. \<^verbatim>\<open>post_process_transaction\<close> then calls \<^verbatim>\<open>free_block\<close> once for every entry of
  the list, in order: when it returns, the freelist is the list reversed in front of the
  old freelist and every listed block is flagged free; and it does return, with every
  listed block exactly once in the freelist, when the listed blocks are distinct and
  allocated.
\<close>

theorem delayed_free_waits_for_post_process:
  "bfree dv x t True a =
     Inr (if dv = 1 then map_option (\<lambda>tr. tr\<lparr>free_block_list := free_block_list tr @ [ucast x]\<rparr>) t else t, a) \<and>
   (\<exists>s'. itrunc P offset s = Inr s' \<and> ts_alloc s' = ts_alloc s) \<and>
   (\<forall>a'. post_process_transaction tr a = Inr a' \<longrightarrow>
      free_bit_freelist a' = rev (map unat (free_block_list tr)) @ free_bit_freelist a \<and>
      (\<forall>b \<in> set (free_block_list tr). is_free (free_bit_vector a' ! unat b))) \<and>
   (alloc_inv a \<and> distinct (free_block_list tr) \<and>
    (\<forall>b \<in> set (free_block_list tr).
        unat b < length (free_bit_vector a) \<and> \<not> is_free (free_bit_vector a ! unat b)) \<longrightarrow>
      (\<exists>a'. post_process_transaction tr a = Inr a' \<and> alloc_inv a' \<and>
            (\<forall>b \<in> set (free_block_list tr). count_list (free_bit_freelist a') (unat b) = 1)))"
proof -
  have p1: "bfree dv x t True a =
     Inr (if dv = 1 then map_option (\<lambda>tr. tr\<lparr>free_block_list := free_block_list tr @ [ucast x]\<rparr>) t else t, a)"
    by (simp add: bfree_def Let_def)
  have p2: "\<exists>s'. itrunc P offset s = Inr s' \<and> ts_alloc s' = ts_alloc s"
    by (rule keeps_allocD[OF itrunc_alloc])
  have p3: "\<forall>a'. post_process_transaction tr a = Inr a' \<longrightarrow>
      free_bit_freelist a' = rev (map unat (free_block_list tr)) @ free_bit_freelist a \<and>
      (\<forall>b \<in> set (free_block_list tr). is_free (free_bit_vector a' ! unat b))"
  proof (rule allI, rule impI)
    fix a' assume "post_process_transaction tr a = Inr a'"
    then have "free_blocks (free_block_list tr) a = Inr a'" by (simp add: post_process_transaction_def)
    from free_blocks_Inr[OF this]
    show "free_bit_freelist a' = rev (map unat (free_block_list tr)) @ free_bit_freelist a \<and>
        (\<forall>b \<in> set (free_block_list tr). is_free (free_bit_vector a' ! unat b))"
      by blast
  qed
  have p4: "alloc_inv a \<and> distinct (free_block_list tr) \<and>
    (\<forall>b \<in> set (free_block_list tr).
        unat b < length (free_bit_vector a) \<and> \<not> is_free (free_bit_vector a ! unat b)) \<longrightarrow>
      (\<exists>a'. post_process_transaction tr a = Inr a' \<and> alloc_inv a' \<and>
            (\<forall>b \<in> set (free_block_list tr). count_list (free_bit_freelist a') (unat b) = 1))"
  proof (rule impI)
    assume h: "alloc_inv a \<and> distinct (free_block_list tr) \<and>
      (\<forall>b \<in> set (free_block_list tr).
          unat b < length (free_bit_vector a) \<and> \<not> is_free (free_bit_vector a ! unat b))"
    then obtain a' where a': "free_blocks (free_block_list tr) a = Inr a'" "alloc_inv a'"
      using free_blocks_succeeds[of a "free_block_list tr"] by blast
    have "count_list (free_bit_freelist a') (unat b) = 1" if "b \<in> set (free_block_list tr)" for b
    proof -
      have "unat b < length (free_bit_vector a') \<and> is_free (free_bit_vector a' ! unat b)"
        using free_blocks_Inr[OF a'(1)] that by blast
      then have "unat b \<in> set (free_bit_freelist a')"
        using alloc_inv_mem[OF a'(2), of "unat b"] by simp
      with alloc_inv_distinct[OF a'(2)] show ?thesis by (rule count_list_distinct_mem)
    qed
    then show "\<exists>a'. post_process_transaction tr a = Inr a' \<and> alloc_inv a' \<and>
              (\<forall>b \<in> set (free_block_list tr). count_list (free_bit_freelist a') (unat b) = 1)"
      using a' by (auto simp: post_process_transaction_def)
  qed
  from p1 p2 p3 p4 show ?thesis by blast
qed

theorem delayed_free_waits_witness:
  "alloc_inv ex_alloc5 \<and> free_block_list ex_freed = [3, 4] \<and> distinct (free_block_list ex_freed) \<and>
   length (free_bit_vector ex_alloc5) = 5 \<and>
   \<not> is_free (free_bit_vector ex_alloc5 ! 3) \<and> \<not> is_free (free_bit_vector ex_alloc5 ! 4) \<and>
   bfree 1 3 (Some ex_empty_trans) True ex_alloc5 =
     Inr (Some (ex_empty_trans\<lparr>free_block_list := [3]\<rparr>), ex_alloc5) \<and>
   (\<exists>s'. itrunc ex_small 0 ex_trunc = Inr s' \<and> ts_alloc s' = ex_alloc5) \<and>
   (\<exists>a'. post_process_transaction ex_freed ex_alloc5 = Inr a' \<and>
         free_bit_freelist a' = [4, 3, 1, 2] \<and> alloc_inv a')"
proof -
  have h1: "alloc_inv ex_alloc5" by code_simp
  have h2: "distinct (free_block_list ex_freed)" by (simp add: ex_freed_def)
  have h3: "\<forall>b \<in> set (free_block_list ex_freed).
       unat b < length (free_bit_vector ex_alloc5) \<and> \<not> is_free (free_bit_vector ex_alloc5 ! unat b)"
    by (simp add: ex_freed_def ex_alloc5_def)
  note t = delayed_free_waits_for_post_process[of 1 3 "Some ex_empty_trans" ex_alloc5 ex_small 0 ex_trunc ex_freed]
  have c1: "bfree 1 3 (Some ex_empty_trans) True ex_alloc5 =
     Inr (Some (ex_empty_trans\<lparr>free_block_list := [3]\<rparr>), ex_alloc5)"
    using t by (simp add: ex_empty_trans_def)
  have c2: "\<exists>s'. itrunc ex_small 0 ex_trunc = Inr s' \<and> ts_alloc s' = ex_alloc5"
    using t by (simp add: ex_trunc_def)
  from t h1 h2 h3 obtain a' where a': "post_process_transaction ex_freed ex_alloc5 = Inr a'" "alloc_inv a'"
    by blast
  with t have "free_bit_freelist a' = rev (map unat (free_block_list ex_freed)) @ free_bit_freelist ex_alloc5"
    by blast
  then have "free_bit_freelist a' = [4, 3, 1, 2]" by (simp add: ex_freed_def ex_alloc5_def)
  with a' have c3: "\<exists>a'. post_process_transaction ex_freed ex_alloc5 = Inr a' \<and>
         free_bit_freelist a' = [4, 3, 1, 2] \<and> alloc_inv a'" by blast
  have h4: "free_block_list ex_freed = [3, 4]" "length (free_bit_vector ex_alloc5) = 5"
    "\<not> is_free (free_bit_vector ex_alloc5 ! 3)" "\<not> is_free (free_bit_vector ex_alloc5 ! 4)"
    by (simp_all add: ex_freed_def ex_alloc5_def)
  from h1 h2 h4 c1 c2 c3 show ?thesis by blast
qed

subsection \<open>Inode allocation\<close>

lemma try_ialloc_unlocked:
  assumes "try_ialloc i dv ty st = Inr (Some j, st')"
  shows "\<exists>ip. ins st' j = Some ip \<and> \<not> busy ip"
  using assms
  by (auto simp: try_ialloc_def iget_def ilock_def iunlock_def Let_def
      split: option.splits if_splits sum.splits prod.splits)

text \<open>
  Claim C6. The scan order and the choice of the first free inode are as the claim says,
  but the chosen inode is not returned locked: \<^verbatim>\<open>try_ialloc\<close> calls \<^verbatim>\<open>iunlock\<close> before it
  returns. With the hint at inode 1 and inode 2 free, \<^verbatim>\<open>ialloc\<close> claims inode 2, sets its
  type and generation, records the hint, and hands it back with \<^verbatim>\<open>busy\<close> false and
  \<^verbatim>\<open>readbusy\<close> 0; the \<^verbatim>\<open>iunlock\<close> that the callers then issue panics.
\<close>

theorem ialloc_returns_unlocked_inode:
  "\<exists>st ip. ialloc 1 2 0 ex_inode_state = Inr (Some 2, st) \<and>
           ins st 2 = Some ip \<and> itype ip = 2 \<and> gen ip = 1 \<and> last_inode st 0 = 2 \<and>
           \<not> busy ip \<and> readbusy ip = 0 \<and>
           iunlock ip = Inl (LockPanic ''iunlock'')"
  by (simp add: ialloc_def ex_inode_state_def ex_dinode_free_def try_ialloc_def iget_def
      ilock_def iunlock_def Let_def)

subsection \<open>Rename pairs\<close>



subsection \<open>Writing\<close>






























end
